theory Spec2Isabelle
  imports Complex_Main
begin

unbundle bit_operations_syntax

section \<open>FITS file handling utilities: constants and C conventions\<close>

text \<open>
  The development embeds the FITS codec (the second document of
  \<^verbatim>\<open>src/libs/astro/sphcart.c\<close>, RCS name \<^verbatim>\<open>fits.c\<close>).

  Conventions of the embedding.
  \<^item> A C \<^verbatim>\<open>char\<close> buffer is a \<^typ>\<open>char list\<close>; a byte is a \<^typ>\<open>char\<close>.
  \<^item> A C \<^verbatim>\<open>int\<close> is an \<^typ>\<open>int\<close>.  Where the source stores into an
    \<^verbatim>\<open>unsigned short\<close> or an \<^verbatim>\<open>unsigned int\<close> the reduction modulo
    \<open>2 ^ 16\<close> or \<open>2 ^ 32\<close> is written out with \<^const>\<open>take_bit\<close>; shifts and masks
    on \<^typ>\<open>int\<close> are those of two's complement (\<^const>\<open>drop_bit\<close> on a negative
    number is the arithmetic shift).
  \<^item> The host byte order is the parameter \<open>le\<close> (\<^term>\<open>True\<close> on a little-endian
    host); it decides how a 16-bit or a 32-bit object is laid out in a buffer.
\<close>

text \<open>\<^verbatim>\<open>#define BZERO 32768\<close> (the build without \<^verbatim>\<open>SET_BZERO\<close>).\<close>

definition BZERO :: int where
  "BZERO = 32768"

text \<open>
  Modelled from the spec: the header \<^verbatim>\<open>fits.h\<close> is not among the sources.  The spec
  fixes the card width (80 columns) and the block size (36 cards, 2880 bytes);
  \<^verbatim>\<open>FITSRow\<close> is an array of \<^verbatim>\<open>FITS_HCOLS\<close> characters.
\<close>

definition FITS_HCOLS :: nat where
  "FITS_HCOLS = 80"

definition FITS_HROWS :: int where
  "FITS_HROWS = 36"

type_synonym FITSRow = "char list"

definition NUL :: char where
  "NUL = CHR 0x00"

definition SP :: char where
  "SP = CHR '' ''"

definition QUOTE :: char where
  "QUOTE = CHR 0x27"

section \<open>Pixel codec\<close>

subsection \<open>Objects in memory\<close>

text \<open>Reading and writing an \<^verbatim>\<open>unsigned short\<close> through a \<^verbatim>\<open>char *\<close>.\<close>

definition load16 :: "bool \<Rightarrow> char \<Rightarrow> char \<Rightarrow> int" where
  "load16 le c0 c1 =
     (if le then of_char c0 + 256 * of_char c1 else of_char c1 + 256 * of_char c0)"

definition store16 :: "bool \<Rightarrow> int \<Rightarrow> char list" where
  "store16 le v =
     (let u = take_bit 16 v; lo = char_of u; hi = char_of (drop_bit 8 u)
      in if le then [lo, hi] else [hi, lo])"

text \<open>Reading and writing an \<^verbatim>\<open>unsigned int\<close> through a \<^verbatim>\<open>char *\<close>.\<close>

definition load32 :: "bool \<Rightarrow> char \<Rightarrow> char \<Rightarrow> char \<Rightarrow> char \<Rightarrow> int" where
  "load32 le c0 c1 c2 c3 =
     (if le then of_char c0 + 256 * (of_char c1 + 256 * (of_char c2 + 256 * of_char c3))
      else of_char c3 + 256 * (of_char c2 + 256 * (of_char c1 + 256 * of_char c0)))"

definition store32 :: "bool \<Rightarrow> int \<Rightarrow> char list" where
  "store32 le v =
     (let u = take_bit 32 v;
          b0 = char_of u; b1 = char_of (drop_bit 8 u);
          b2 = char_of (drop_bit 16 u); b3 = char_of (drop_bit 24 u)
      in if le then [b0, b1, b2, b3] else [b3, b2, b1, b0])"

text \<open>The value of an \<^verbatim>\<open>unsigned int\<close> converted to \<^verbatim>\<open>int\<close>.\<close>

definition int_of_uint :: "int \<Rightarrow> int" where
  "int_of_uint u = signed_take_bit 31 u"

text \<open>
  \<^verbatim>\<open>lendian\<close>: the union of a \<^verbatim>\<open>short\<close> and two characters, with
  \<^verbatim>\<open>U.c[0] = 1; U.c[1] = 0\<close>; the answer is \<^verbatim>\<open>U.s == 1\<close>.
\<close>

definition lendian :: "bool \<Rightarrow> bool" where
  "lendian le = (load16 le (CHR 0x01) (CHR 0x00) = 1)"

subsection \<open>The pixel loops\<close>

text \<open>
  \<^verbatim>\<open>while (--npix >= 0) { r0 = pixp++; *r0 = f (*r0); }\<close> over
  \<^verbatim>\<open>unsigned short\<close> objects.  The count is the number of iterations left;
  a buffer that ends before the count does is left as it is from there on (the
  source would run off the buffer).
\<close>

fun pixloop16 :: "bool \<Rightarrow> (int \<Rightarrow> int) \<Rightarrow> nat \<Rightarrow> char list \<Rightarrow> char list" where
  "pixloop16 le f (Suc n) (c0 # c1 # cs) =
     store16 le (f (load16 le c0 c1)) @ pixloop16 le f n cs"
| "pixloop16 le f n cs = cs"

text \<open>The same loop over \<^verbatim>\<open>unsigned int\<close> objects.\<close>

fun pixloop32 :: "bool \<Rightarrow> (int \<Rightarrow> int) \<Rightarrow> nat \<Rightarrow> char list \<Rightarrow> char list" where
  "pixloop32 le f (Suc n) (c0 # c1 # c2 # c3 # cs) =
     store32 le (f (load32 le c0 c1 c2 c3)) @ pixloop32 le f n cs"
| "pixloop32 le f n cs = cs"

text \<open>\<^verbatim>\<open>enFITSPixels\<close>: internal native unsigned shorts to big-endian signed.\<close>

definition enFITSPixels :: "bool \<Rightarrow> char list \<Rightarrow> int \<Rightarrow> char list" where
  "enFITSPixels le img npix =
     (if lendian le then
        pixloop16 le
          (\<lambda>r0. let p0 = r0 - BZERO
                in (push_bit 8 p0 AND 0xff00) OR (drop_bit 8 p0 AND 0xff))
          (nat npix) img
      else
        pixloop16 le (\<lambda>r0. let p0 = r0 - BZERO in p0) (nat npix) img)"

text \<open>\<^verbatim>\<open>unFITSPixels\<close>: big-endian signed shorts to internal native unsigned.\<close>

definition unFITSPixels :: "bool \<Rightarrow> char list \<Rightarrow> int \<Rightarrow> char list" where
  "unFITSPixels le img npix =
     (if lendian le then
        pixloop16 le
          (\<lambda>r0. let p0 = r0
                in (push_bit 8 p0 OR (drop_bit 8 p0 AND 0xff)) + BZERO)
          (nat npix) img
      else
        pixloop16 le (\<lambda>r0. let p0 = r0 in p0 + BZERO) (nat npix) img)"

text \<open>\<^verbatim>\<open>unFITSPixelsInt\<close>: big-endian 32-bit integers plus the bias.\<close>

definition unFITSPixelsInt :: "bool \<Rightarrow> char list \<Rightarrow> int \<Rightarrow> char list" where
  "unFITSPixelsInt le img npix =
     (if lendian le then
        pixloop32 le
          (\<lambda>r0. let p0 = int_of_uint r0
                in ((push_bit 24 p0 AND 0xFF000000) OR
                    (push_bit 8 p0 AND 0x00FF0000) OR
                    (drop_bit 8 p0 AND 0x0000FF00) OR
                    (drop_bit 24 p0 AND 0x000000FF))
                   + BZERO)
          (nat npix) img
      else
        pixloop32 le (\<lambda>r0. let p0 = int_of_uint r0 in p0 + BZERO) (nat npix) img)"

text \<open>
  \<^verbatim>\<open>unFITSPixelsFloat\<close>: the byte swap alone, and only on a little-endian host;
  the function has no other branch.
\<close>

definition unFITSPixelsFloat :: "bool \<Rightarrow> char list \<Rightarrow> int \<Rightarrow> char list" where
  "unFITSPixelsFloat le img npix =
     (if lendian le then
        pixloop32 le
          (\<lambda>r0. let p0 = int_of_uint r0
                in ((push_bit 24 p0 AND 0xFF000000) OR
                    (push_bit 8 p0 AND 0x00FF0000) OR
                    (drop_bit 8 p0 AND 0x0000FF00) OR
                    (drop_bit 24 p0 AND 0x000000FF)))
          (nat npix) img
      else img)"

subsection \<open>The conversion loops of \<^verbatim>\<open>readFITS\<close>\<close>

text \<open>
  \<^verbatim>\<open>((unsigned short*)fip->image)[ntot] = ((unsigned short*)imdata)[ntot]\<close> for
  \<open>ntot\<close> below \<open>npixels\<close>: the produced image bytes.
\<close>

fun copy16 :: "bool \<Rightarrow> nat \<Rightarrow> char list \<Rightarrow> char list" where
  "copy16 le (Suc n) (c0 # c1 # cs) = store16 le (load16 le c0 c1) @ copy16 le n cs"
| "copy16 le n cs = []"

text \<open>
  \<^verbatim>\<open>((unsigned short*)fip->image)[ntot] = (unsigned short)((int*)imdata)[ntot]\<close>.
\<close>

fun narrow32 :: "bool \<Rightarrow> nat \<Rightarrow> char list \<Rightarrow> char list" where
  "narrow32 le (Suc n) (c0 # c1 # c2 # c3 # cs) =
     store16 le (int_of_uint (load32 le c0 c1 c2 c3)) @ narrow32 le n cs"
| "narrow32 le n cs = []"



section \<open>C strings and the pieces of \<^verbatim>\<open>sprintf\<close> the source uses\<close>

text \<open>A C string argument ends at its first NUL.\<close>

definition cstr :: "string \<Rightarrow> string" where
  "cstr s = takeWhile (\<lambda>c. c \<noteq> NUL) s"

text \<open>Padding with blanks on the right (the \<^verbatim>\<open>-\<close> flag) and on the left.\<close>

definition ljust :: "nat \<Rightarrow> string \<Rightarrow> string" where
  "ljust w s = s @ replicate (w - length s) SP"

definition rjust :: "nat \<Rightarrow> string \<Rightarrow> string" where
  "rjust w s = replicate (w - length s) SP @ s"

text \<open>\<^verbatim>\<open>%-w.ps\<close>: at most \<open>p\<close> characters of the string, left-justified in \<open>w\<close>.\<close>

definition fmt_ls :: "nat \<Rightarrow> nat \<Rightarrow> string \<Rightarrow> string" where
  "fmt_ls w p s = ljust w (take p (cstr s))"

text \<open>\<^verbatim>\<open>%d\<close>.\<close>

definition digit_char :: "nat \<Rightarrow> char" where
  "digit_char d = char_of (48 + d)"

fun digits :: "nat \<Rightarrow> string" where
  "digits n = (if n < 10 then [digit_char n] else digits (n div 10) @ [digit_char (n mod 10)])"

declare digits.simps [simp del]

definition fmt_d :: "int \<Rightarrow> string" where
  "fmt_d v = (if v < 0 then CHR ''-'' # digits (nat (- v)) else digits (nat v))"

text \<open>C's division and remainder on \<^verbatim>\<open>int\<close>: the quotient is truncated towards 0.\<close>

definition cdiv :: "int \<Rightarrow> int \<Rightarrow> int" where
  "cdiv a b = sgn a * sgn b * (\<bar>a\<bar> div \<bar>b\<bar>)"

definition cmod :: "int \<Rightarrow> int \<Rightarrow> int" where
  "cmod a b = a - b * cdiv a b"

text \<open>
  \<^verbatim>\<open>strncmp (a, b, n) == 0\<close>.  The arguments are the memory from the two pointers
  on, a string constant with its NUL; memory that ends before the comparison is
  decided does not compare equal.
\<close>

fun strncmp_eq :: "string \<Rightarrow> string \<Rightarrow> nat \<Rightarrow> bool" where
  "strncmp_eq a b 0 = True"
| "strncmp_eq (x # xs) (y # ys) (Suc n) = (x = y \<and> (x = NUL \<or> strncmp_eq xs ys n))"
| "strncmp_eq a b (Suc n) = False"

text \<open>
  \<^verbatim>\<open>atoi\<close>: white space, an optional sign, then decimal digits up to the first
  character that is none.  The result is the number read; a number outside the range
  of \<^verbatim>\<open>int\<close>, where C leaves \<^verbatim>\<open>atoi\<close> undefined, is not reduced.
\<close>

definition isspace :: "char \<Rightarrow> bool" where
  "isspace c = (c = SP \<or> c = CHR 0x09 \<or> c = CHR 0x0A \<or> c = CHR 0x0B \<or> c = CHR 0x0C
                \<or> c = CHR 0x0D)"

definition isdigit :: "char \<Rightarrow> bool" where
  "isdigit c = (48 \<le> (of_char c :: nat) \<and> (of_char c :: nat) \<le> 57)"

fun atoi_digits :: "int \<Rightarrow> string \<Rightarrow> int" where
  "atoi_digits acc [] = acc"
| "atoi_digits acc (c # cs) =
     (if isdigit c then atoi_digits (10 * acc + (int (of_char c) - 48)) cs else acc)"

definition atoi :: "string \<Rightarrow> int" where
  "atoi s =
     (case dropWhile isspace s of
        [] \<Rightarrow> 0
      | c # cs \<Rightarrow>
          if c = CHR ''-'' then - atoi_digits 0 cs
          else if c = CHR ''+'' then atoi_digits 0 cs
          else atoi_digits 0 (c # cs))"

section \<open>The allocator\<close>

text \<open>
  \<^verbatim>\<open>malloc\<close>, \<^verbatim>\<open>realloc\<close> and \<^verbatim>\<open>free\<close>.  The heap state is a plan of the
  outcomes of the calls to come (\<^term>\<open>True\<close>: the call returns memory; a plan that
  has run out means success) and the number of blocks that are live.  Buffers
  themselves are values held by their owner.
\<close>

record heap =
  alloc_plan :: "bool list"
  live :: int

definition malloc :: "heap \<Rightarrow> bool \<times> heap" where
  "malloc h =
     (case alloc_plan h of
        [] \<Rightarrow> (True, h\<lparr>live := live h + 1\<rparr>)
      | ok # plan \<Rightarrow> (ok, h\<lparr>alloc_plan := plan, live := live h + (if ok then 1 else 0)\<rparr>))"

text \<open>A successful \<^verbatim>\<open>realloc\<close> trades the old block for the new one; a failed
  one leaves the old block live.\<close>

definition realloc :: "heap \<Rightarrow> bool \<times> heap" where
  "realloc h =
     (case alloc_plan h of
        [] \<Rightarrow> (True, h)
      | ok # plan \<Rightarrow> (ok, h\<lparr>alloc_plan := plan\<rparr>))"

definition free :: "heap \<Rightarrow> heap" where
  "free h = h\<lparr>live := live h - 1\<rparr>"

section \<open>The image descriptor\<close>

text \<open>
  Modelled from the spec: the structure \<^verbatim>\<open>FImage\<close> is declared in \<^verbatim>\<open>fits.h\<close>,
  which is not among the sources.  Its fields are those the functions use: the
  bit depth, width and height, offsets, binning factors, the duration in
  milliseconds, the array of header rows with its count, and the pixel buffer.
  A null pointer is \<^term>\<open>None\<close>.  The fields \<^verbatim>\<open>by\<close> and \<^verbatim>\<open>image\<close> carry a
  prime.
\<close>

record FImage =
  bitpix :: int
  sw :: int
  sh :: int
  sx :: int
  sy :: int
  bx :: int
  by' :: int
  dur :: int
  var :: "FITSRow list option"
  nvar :: int
  image' :: "char list option"

text \<open>\<^verbatim>\<open>initFImage\<close>: all fields zero, the binning factors 1.\<close>

definition initFImage :: FImage where
  "initFImage =
     \<lparr>bitpix = 0, sw = 0, sh = 0, sx = 0, sy = 0, bx = 1, by' = 1, dur = 0,
      var = None, nvar = 0, image' = None\<rparr>"

text \<open>\<^verbatim>\<open>resetFImage\<close>: free what is held, then initialize.\<close>

definition resetFImage :: "FImage \<Rightarrow> heap \<Rightarrow> FImage \<times> heap" where
  "resetFImage fip h =
     (let h1 = (if var fip \<noteq> None then free h else h);
          h2 = (if image' fip \<noteq> None then free h1 else h1)
      in (initFImage, h2))"

section \<open>The header store\<close>

text \<open>The rows behind \<^verbatim>\<open>fip->var\<close>.\<close>

definition rows :: "FImage \<Rightarrow> FITSRow list" where
  "rows fip = (case var fip of None \<Rightarrow> [] | Some rs \<Rightarrow> rs)"

text \<open>
  \<^verbatim>\<open>findFImageVar\<close>: the index of the first of the \<^verbatim>\<open>nvar\<close> rows whose first
  eight characters compare equal to the name, formatted \<^verbatim>\<open>%-8.8s\<close>.
\<close>

fun find_row :: "string \<Rightarrow> FITSRow list \<Rightarrow> nat \<Rightarrow> nat option" where
  "find_row field [] i = None"
| "find_row field (r # rs) i =
     (if strncmp_eq field r 8 then Some i else find_row field rs (Suc i))"

definition findFImageVar :: "FImage \<Rightarrow> string \<Rightarrow> nat option" where
  "findFImageVar fip name =
     (let field = fmt_ls 8 8 name @ [NUL]
      in find_row field (take (nat (nvar fip)) (rows fip)) 0)"

text \<open>
  \<^verbatim>\<open>addFImageVar\<close>: room for one more row, then the row copied to the new last
  position.  When there is no memory the function prints a message and returns
  with the store as it was.
\<close>

definition addFImageVar :: "FImage \<Rightarrow> FITSRow \<Rightarrow> heap \<Rightarrow> FImage \<times> heap" where
  "addFImageVar fip row h =
     (let newn = nvar fip + 1;
          (mem, h') = (if var fip \<noteq> None then realloc h else malloc h)
      in if \<not> mem then (fip, h')
         else (fip\<lparr>var := Some (take (nat (nvar fip)) (rows fip) @ [take FITS_HCOLS row]),
                   nvar := newn\<rparr>, h'))"

text \<open>Writing through the pointer that \<^verbatim>\<open>findFImageVar\<close> returned.\<close>

definition put_row :: "FImage \<Rightarrow> nat \<Rightarrow> FITSRow \<Rightarrow> FImage" where
  "put_row fip i row = fip\<lparr>var := Some ((rows fip)[i := row])\<rparr>"

subsection \<open>Formatting a row\<close>

text \<open>
  \<^verbatim>\<open>fmtInlineComment\<close>: the final 50 characters of a row.  A null comment is
  \<^term>\<open>None\<close>.
\<close>

definition fmtInlineComment :: "FITSRow \<Rightarrow> string option \<Rightarrow> FITSRow" where
  "fmtInlineComment line comment =
     (let buf = (case comment of
                   Some c \<Rightarrow> '' / '' @ fmt_ls 47 47 c
                 | None \<Rightarrow> rjust 50 [])
      in take 30 line @ take (FITS_HCOLS - 30) buf)"

text \<open>\<^verbatim>\<open>fmtLogicalFITS\<close>: \<^verbatim>\<open>"%-8.8s=%20s%c"\<close>, then the inline comment.\<close>

definition fmtLogicalFITS :: "string \<Rightarrow> int \<Rightarrow> string option \<Rightarrow> FITSRow" where
  "fmtLogicalFITS name v comment =
     fmtInlineComment
       (fmt_ls 8 8 name @ ''='' @ rjust 20 [] @ [if v \<noteq> 0 then CHR ''T'' else CHR ''F''])
       comment"

text \<open>\<^verbatim>\<open>fmtIntFITS\<close>: \<^verbatim>\<open>"%-8.8s= %*s%s"\<close> with the width \<open>20 - strl\<close>.\<close>

definition fmtIntFITS :: "string \<Rightarrow> int \<Rightarrow> string option \<Rightarrow> FITSRow" where
  "fmtIntFITS name v comment =
     (let str = fmt_d v; strl = length str
      in fmtInlineComment (fmt_ls 8 8 name @ ''= '' @ rjust (20 - strl) [] @ str) comment)"

text \<open>
  \<^verbatim>\<open>fmtStringFITS\<close>: \<^verbatim>\<open>"%-8.8s= '%-*.*s'%*s"\<close> into an 81-character line, the
  comment from column \<open>max (12 + l) 30\<close> on when there is room, and the first 80
  characters copied to the row.
\<close>

definition fmtStringFITS :: "string \<Rightarrow> string \<Rightarrow> string option \<Rightarrow> FITSRow" where
  "fmtStringFITS name v comment =
     (let l0 = length (cstr v);
          l = (if l0 < 8 then 8 else if l0 > 68 then 68 else l0);
          lline = fmt_ls 8 8 name @ ''= '' @ [QUOTE] @ fmt_ls l l v @ [QUOTE]
                  @ rjust (80 - 12 - l) [];
          lline' = (case comment of
                      Some c \<Rightarrow>
                        if l < 80 - 3 - 12 then
                          (let start = (if 12 + l < 30 then 30 else 12 + l)
                           in take start lline @ '' / ''
                              @ fmt_ls (80 - 3 - start) (80 - 3 - start) c)
                        else lline
                    | None \<Rightarrow> lline)
      in take FITS_HCOLS lline')"

text \<open>\<^verbatim>\<open>fmtENDFITS\<close>: \<^verbatim>\<open>"%-79s"\<close> of \<^verbatim>\<open>"END"\<close>, and a blank in the last column.\<close>

definition fmtENDFITS :: FITSRow where
  "fmtENDFITS = (ljust 79 ''END'' @ [NUL])[79 := SP]"

subsection \<open>Setting a field\<close>

text \<open>
  \<^verbatim>\<open>setLogicalFITS\<close>, \<^verbatim>\<open>setIntFITS\<close> and \<^verbatim>\<open>setStringFITS\<close>: format over the
  row found, or format a fresh row and add it.
\<close>

definition setLogicalFITS ::
  "FImage \<Rightarrow> string \<Rightarrow> int \<Rightarrow> string option \<Rightarrow> heap \<Rightarrow> FImage \<times> heap" where
  "setLogicalFITS fip name v comment h =
     (case findFImageVar fip name of
        Some rp \<Rightarrow> (put_row fip rp (fmtLogicalFITS name v comment), h)
      | None \<Rightarrow> addFImageVar fip (fmtLogicalFITS name v comment) h)"

definition setIntFITS ::
  "FImage \<Rightarrow> string \<Rightarrow> int \<Rightarrow> string option \<Rightarrow> heap \<Rightarrow> FImage \<times> heap" where
  "setIntFITS fip name v comment h =
     (case findFImageVar fip name of
        Some rp \<Rightarrow> (put_row fip rp (fmtIntFITS name v comment), h)
      | None \<Rightarrow> addFImageVar fip (fmtIntFITS name v comment) h)"

definition setStringFITS ::
  "FImage \<Rightarrow> string \<Rightarrow> string \<Rightarrow> string option \<Rightarrow> heap \<Rightarrow> FImage \<times> heap" where
  "setStringFITS fip name v comment h =
     (case findFImageVar fip name of
        Some rp \<Rightarrow> (put_row fip rp (fmtStringFITS name v comment), h)
      | None \<Rightarrow> addFImageVar fip (fmtStringFITS name v comment) h)"

text \<open>
  \<^verbatim>\<open>setCommentFITS\<close>: \<^verbatim>\<open>for (n = 0; n < l; )\<close> with one row added per round,
  72 characters of the comment in the first and 68 in each later one.
\<close>

function setComment_loop ::
  "FImage \<Rightarrow> string \<Rightarrow> string \<Rightarrow> nat \<Rightarrow> nat \<Rightarrow> heap \<Rightarrow> FImage \<times> heap" where
  "setComment_loop fip name comment n l h =
     (if n < l then
        (let lline = (if n = 0 then fmt_ls 8 8 name @ fmt_ls 72 72 comment
                      else fmt_ls 8 8 name @ ''... '' @ fmt_ls 68 68 (drop n comment));
             n' = (if n = 0 then n + 72 else n + 68);
             (fip', h') = addFImageVar fip lline h
         in setComment_loop fip' name comment n' l h')
      else (fip, h))"
  by pat_completeness auto
termination
  by (relation "measure (\<lambda>(fip, name, comment, n, l, h). l - n)") (auto split: if_splits)

declare setComment_loop.simps [simp del]

definition setCommentFITS :: "FImage \<Rightarrow> string \<Rightarrow> string \<Rightarrow> heap \<Rightarrow> FImage \<times> heap" where
  "setCommentFITS fip name comment h =
     (let l = length (cstr comment) in setComment_loop fip name (cstr comment) 0 l h)"

subsection \<open>Getting a field\<close>

text \<open>\<^verbatim>\<open>getLogicalFITS\<close>: column 30 of the row found.\<close>

definition getLogicalFITS :: "FImage \<Rightarrow> string \<Rightarrow> int option" where
  "getLogicalFITS fip name =
     (case findFImageVar fip name of
        None \<Rightarrow> None
      | Some rp \<Rightarrow>
          (let c = rows fip ! rp ! 29
           in if c = CHR ''T'' \<or> c = CHR ''t'' then Some 1
              else if c = CHR ''F'' \<or> c = CHR ''f'' then Some 0
              else None))"

text \<open>
  \<^verbatim>\<open>getIntFITS\<close>: \<^verbatim>\<open>atoi (rp+10)\<close>.  The row is not a string of its own: what
  \<^verbatim>\<open>atoi\<close> sees is the array of rows from column 11 of the row found, to the
  end of the array.
\<close>

definition getIntFITS :: "FImage \<Rightarrow> string \<Rightarrow> int option" where
  "getIntFITS fip name =
     (case findFImageVar fip name of
        None \<Rightarrow> None
      | Some rp \<Rightarrow> Some (atoi (drop 10 (concat (drop rp (rows fip))))))"

text \<open>
  \<^verbatim>\<open>getRealFITS\<close>, up to the call of \<^verbatim>\<open>atof\<close>: 30 characters from column 11 in
  a buffer of its own, the first \<^verbatim>\<open>D\<close>, or else the first \<^verbatim>\<open>d\<close>, replaced by
  \<^verbatim>\<open>e\<close>.  The result is the string handed to \<^verbatim>\<open>atof\<close>.
\<close>

fun subst_first :: "char \<Rightarrow> char \<Rightarrow> string \<Rightarrow> string" where
  "subst_first a b [] = []"
| "subst_first a b (c # cs) = (if c = a then b # cs else c # subst_first a b cs)"

definition getRealFITS_text :: "FImage \<Rightarrow> string \<Rightarrow> string option" where
  "getRealFITS_text fip name =
     (case findFImageVar fip name of
        None \<Rightarrow> None
      | Some rp \<Rightarrow>
          (let buf = cstr (take 30 (drop 10 (rows fip ! rp)))
           in Some (if CHR ''D'' \<in> set buf then subst_first (CHR ''D'') (CHR ''e'') buf
                    else subst_first (CHR ''d'') (CHR ''e'') buf)))"

text \<open>
  \<^verbatim>\<open>getCommentFITS\<close>: \<^verbatim>\<open>memcpy (buf, rp, 72); rp[72] = '\0';\<close>.  The result is
  the return value, the descriptor and the caller's buffer.
\<close>

definition getCommentFITS :: "FImage \<Rightarrow> string \<Rightarrow> char list \<Rightarrow> int \<times> FImage \<times> char list" where
  "getCommentFITS fip name buf =
     (case findFImageVar fip name of
        None \<Rightarrow> (- 1, fip, buf)
      | Some rp \<Rightarrow>
          (let row = rows fip ! rp
           in (0, put_row fip rp (row[72 := NUL]), take 72 row @ drop 72 buf)))"

text \<open>
  \<^verbatim>\<open>getStringFITS\<close>.  The loop runs over the columns after the opening quote; the
  characters copied so far are kept newest first.  At the closing quote the blanks
  at the end of what was copied are dropped (\<^verbatim>\<open>while (string > string0 && string[-1] == ' ')\<close>).
  The result is the string written to the caller's buffer, before its NUL.
\<close>

fun strip_back :: "string \<Rightarrow> string" where
  "strip_back [] = []"
| "strip_back (c # cs) = (if c = SP then strip_back cs else c # cs)"

fun getString_loop :: "string \<Rightarrow> string \<Rightarrow> string option" where
  "getString_loop [] out = None"
| "getString_loop (c # cs) out =
     (if c = QUOTE then Some (rev (strip_back out)) else getString_loop cs (c # out))"

definition getStringFITS :: "FImage \<Rightarrow> string \<Rightarrow> string option" where
  "getStringFITS fip name =
     (case findFImageVar fip name of
        None \<Rightarrow> None
      | Some rp \<Rightarrow>
          (let row = rows fip ! rp
           in if row ! 10 \<noteq> QUOTE then None
              else getString_loop (drop 11 (take FITS_HCOLS row)) []))"

subsection \<open>\<^verbatim>\<open>getNAXIS\<close>\<close>

text \<open>The results of the functions that fill \<^verbatim>\<open>errmsg\<close> and return \<open>-1\<close>, or return 0.\<close>

datatype status = OK | ERR string

definition retcode :: "status \<Rightarrow> int" where
  "retcode s = (case s of OK \<Rightarrow> 0 | ERR msg \<Rightarrow> - 1)"

text \<open>\<^verbatim>\<open>for (i = 3; i <= n; i++)\<close>: every higher dimension must be there and be 1.\<close>

function naxis_loop :: "FImage \<Rightarrow> int \<Rightarrow> int \<Rightarrow> status" where
  "naxis_loop fip n i =
     (if i \<le> n then
        (let naxisi = ''NAXIS'' @ fmt_d i
         in case getIntFITS fip naxisi of
              None \<Rightarrow> ERR (''NAXIS='' @ fmt_d n @ '' but no '' @ naxisi)
            | Some ni \<Rightarrow>
                if ni \<noteq> 1 then ERR (''Require '' @ naxisi @ '' to be 1'')
                else naxis_loop fip n (i + 1))
      else OK)"
  by pat_completeness auto
termination
  by (relation "measure (\<lambda>(fip, n, i). nat (n + 1 - i))") auto

declare naxis_loop.simps [simp del]

definition getNAXIS :: "FImage \<Rightarrow> string + (int \<times> int)" where
  "getNAXIS fip =
     (case getIntFITS fip ''NAXIS'' of
        None \<Rightarrow> Inl ''No NAXIS''
      | Some n \<Rightarrow>
          (case naxis_loop fip n 3 of
             ERR msg \<Rightarrow> Inl msg
           | OK \<Rightarrow>
               (case getIntFITS fip ''NAXIS1'' of
                  None \<Rightarrow> Inl ''No NAXIS1''
                | Some n1 \<Rightarrow>
                    (case getIntFITS fip ''NAXIS2'' of
                       None \<Rightarrow> Inl ''No NAXIS2''
                     | Some n2 \<Rightarrow> Inr (n1, n2)))))"

section \<open>File descriptors\<close>

text \<open>
  A descriptor open for reading holds the bytes not yet delivered and a plan of
  the outcomes of the calls of \<^verbatim>\<open>read\<close> to come: an error (with the text of
  \<^verbatim>\<open>strerror (errno)\<close>), a limit on the number of bytes this call delivers, or
  a call that delivers all it was asked for, as far as the bytes last.  When the
  plan has run out every call is of the last kind.  \<^verbatim>\<open>read\<close> returns the bytes delivered; their number is the return
  value \<open>s\<close>.
\<close>

datatype io_event = IoErr string | IoUpTo nat | IoFull

record infile =
  pending :: "char list"
  rd_plan :: "io_event list"

definition fd_read :: "infile \<Rightarrow> nat \<Rightarrow> (string + char list) \<times> infile" where
  "fd_read fd n =
     (case rd_plan fd of
        [] \<Rightarrow> (Inr (take n (pending fd)), fd\<lparr>pending := drop n (pending fd)\<rparr>)
      | IoFull # plan \<Rightarrow>
          (Inr (take n (pending fd)), fd\<lparr>pending := drop n (pending fd), rd_plan := plan\<rparr>)
      | IoErr e # plan \<Rightarrow> (Inl e, fd\<lparr>rd_plan := plan\<rparr>)
      | IoUpTo k # plan \<Rightarrow>
          (Inr (take (min k n) (pending fd)),
           fd\<lparr>pending := drop (min k n) (pending fd), rd_plan := plan\<rparr>))"

text \<open>
  A descriptor open for writing holds the bytes written so far and the plan of
  the calls of \<^verbatim>\<open>write\<close> to come.  \<^verbatim>\<open>write\<close> returns the number of bytes it
  took from the front of the buffer.
\<close>

record outfile =
  written :: "char list"
  wr_plan :: "io_event list"

definition fd_write :: "outfile \<Rightarrow> char list \<Rightarrow> (string + nat) \<times> outfile" where
  "fd_write fd buf =
     (case wr_plan fd of
        [] \<Rightarrow> (Inr (length buf), fd\<lparr>written := written fd @ buf\<rparr>)
      | IoFull # plan \<Rightarrow>
          (Inr (length buf), fd\<lparr>written := written fd @ buf, wr_plan := plan\<rparr>)
      | IoErr e # plan \<Rightarrow> (Inl e, fd\<lparr>wr_plan := plan\<rparr>)
      | IoUpTo k # plan \<Rightarrow>
          (Inr (min k (length buf)),
           fd\<lparr>written := written fd @ take k buf, wr_plan := plan\<rparr>))"

section \<open>Writing a file\<close>

text \<open>
  \<^verbatim>\<open>writeFITSHeader\<close>.  \<open>npad\<close> is the number of rows added after \<^verbatim>\<open>END\<close>;
  the buffer holds the \<^verbatim>\<open>nvar\<close> rows, \<^verbatim>\<open>END\<close> and \<open>npad\<close> rows of blanks, and
  goes to the file in one call of \<^verbatim>\<open>write\<close>.
\<close>

definition header_npad :: "int \<Rightarrow> int" where
  "header_npad nv = cmod (FITS_HROWS - cmod (nv + 1) FITS_HROWS) FITS_HROWS"

definition header_block :: "FImage \<Rightarrow> char list" where
  "header_block fip =
     (let nv = nvar fip; npad = header_npad nv
      in take (nat nv * FITS_HCOLS) (concat (rows fip))
         @ fmtENDFITS
         @ replicate (nat npad * FITS_HCOLS) SP)"

definition writeFITSHeader :: "FImage \<Rightarrow> outfile \<Rightarrow> heap \<Rightarrow> status \<times> outfile \<times> heap" where
  "writeFITSHeader fip fd h =
     (let nv = nvar fip;
          npad = header_npad nv;
          nbytes = (nv + 1 + npad) * int FITS_HCOLS;
          (hdr, h1) = malloc h
      in if \<not> hdr then
           (ERR (''Can not malloc '' @ fmt_d nbytes @ '' for padded FITS header''), fd, h1)
         else
           (let (nw, fd') = fd_write fd (header_block fip);
                h2 = free h1
            in case nw of
                 Inl e \<Rightarrow> (ERR e, fd', h2)
               | Inr k \<Rightarrow>
                   if int k \<noteq> nbytes then (ERR ''Short write of FITS header'', fd', h2)
                   else (OK, fd', h2)))"

text \<open>
  The loop \<^verbatim>\<open>for (nw = 0; nw < nbytes; nw += n)\<close> around \<^verbatim>\<open>write\<close>.  The first
  argument is what is left of the buffer.  The result is nothing when all was
  written; when a call returned \<open>n \<le> 0\<close> it is the number \<open>nw\<close> written before
  and the text of \<^verbatim>\<open>strerror (errno)\<close> (empty when the call returned 0).
\<close>

function write_loop ::
  "char list \<Rightarrow> nat \<Rightarrow> outfile \<Rightarrow> (nat \<times> string) option \<times> outfile" where
  "write_loop buf nw fd =
     (if buf = [] then (None, fd)
      else case fd_write fd buf of
             (Inl e, fd') \<Rightarrow> (Some (nw, e), fd')
           | (Inr n, fd') \<Rightarrow>
               if n = 0 then (Some (nw, []), fd')
               else write_loop (drop n buf) (nw + n) fd')"
  by pat_completeness auto
termination
  by (relation "measure (\<lambda>(buf, nw, fd). length buf)") auto

declare write_loop.simps [simp del]

text \<open>\<^verbatim>\<open>pad_2880\<close>: zero bytes up to the next multiple of 2880.\<close>

definition pad_2880 :: "outfile \<Rightarrow> int \<Rightarrow> status \<times> outfile" where
  "pad_2880 fd nbytes0 =
     (let nbytes = cmod (2880 - cmod nbytes0 2880) 2880
      in if nbytes = 0 then (OK, fd)
         else case write_loop (replicate (nat nbytes) NUL) 0 fd of
                (None, fd') \<Rightarrow> (OK, fd')
              | (Some (nw, e), fd') \<Rightarrow>
                  (ERR (if int nw < 0 then e
                        else ''Error adding padding of '' @ fmt_d nbytes), fd'))"

text \<open>
  \<^verbatim>\<open>writeFITS\<close>.  The descriptor comes back with its pixels as the call left
  them; nothing else of it is touched.
\<close>

definition writeFITS ::
  "bool \<Rightarrow> outfile \<Rightarrow> FImage \<Rightarrow> int \<Rightarrow> heap \<Rightarrow> status \<times> FImage \<times> outfile \<times> heap" where
  "writeFITS le fd fip restore h =
     (case image' fip of
        None \<Rightarrow> (ERR ''No pixels :-('', fip, fd, h)
      | Some img \<Rightarrow>
          (case writeFITSHeader fip fd h of
             (ERR msg, fd1, h1) \<Rightarrow> (ERR msg, fip, fd1, h1)
           | (OK, fd1, h1) \<Rightarrow>
               (let img1 = enFITSPixels le img (sw fip * sh fip);
                    nbytes = sw fip * sh fip * 2
                in case write_loop (take (nat nbytes) img1) 0 fd1 of
                     (Some (nw, e), fd2) \<Rightarrow>
                       (ERR (if int nw < 0 then e else ''Short write of FITS pixels''),
                        fip\<lparr>image' := Some (if restore \<noteq> 0
                                               then unFITSPixels le img1 (sw fip * sh fip)
                                               else img1)\<rparr>,
                        fd2, h1)
                   | (None, fd2) \<Rightarrow>
                       (case pad_2880 fd2 nbytes of
                          (ERR msg, fd3) \<Rightarrow> (ERR msg, fip\<lparr>image' := Some img1\<rparr>, fd3, h1)
                        | (OK, fd3) \<Rightarrow>
                            (OK,
                             fip\<lparr>image' := Some (if restore \<noteq> 0
                                                    then unFITSPixels le img1 (sw fip * sh fip)
                                                    else img1)\<rparr>,
                             fd3, h1)))))"

section \<open>Reading a file\<close>

subsection \<open>The header\<close>

text \<open>
  The loop of \<^verbatim>\<open>readFITSHeader\<close>: rows of 80 bytes are read until \<^verbatim>\<open>END\<close> was
  seen and the number of rows read is a multiple of \<^verbatim>\<open>FITS_HROWS\<close>.  A row is added
  to the store unless \<^verbatim>\<open>END\<close> was seen before or is seen in this row.  A read
  that does not return 80 bytes ends the loop: well when \<^verbatim>\<open>END\<close> was seen and
  the call did not fail, with a message otherwise.
\<close>

function hdr_loop ::
  "FImage \<Rightarrow> infile \<Rightarrow> heap \<Rightarrow> int \<Rightarrow> bool \<Rightarrow> status \<times> FImage \<times> infile \<times> heap" where
  "hdr_loop fip fd h nrows sawend =
     (case fd_read fd FITS_HCOLS of
        (Inl e, fd') \<Rightarrow> (ERR e, fip, fd', h)
      | (Inr row, fd') \<Rightarrow>
          if length row \<noteq> FITS_HCOLS then
            (if sawend then (OK, fip, fd', h) else (ERR ''header is short'', fip, fd', h))
          else
            (let nrows' = nrows + 1;
                 isend = strncmp_eq row (''END'' @ [NUL]) 3;
                 sawend' = (sawend \<or> isend);
                 (fip', h') = (if \<not> sawend \<and> \<not> isend then addFImageVar fip row h
                               else (fip, h))
             in if \<not> sawend' \<or> cmod nrows' FITS_HROWS \<noteq> 0
                then hdr_loop fip' fd' h' nrows' sawend'
                else (OK, fip', fd', h')))"
  by pat_completeness auto
termination
  by (relation "measure (\<lambda>(fip, fd, h, nrows, sawend). length (pending fd))")
     (auto simp: fd_read_def FITS_HCOLS_def split: list.splits io_event.splits)

declare hdr_loop.simps [simp del]

text \<open>
  The second half of \<^verbatim>\<open>readFITSHeader\<close>: the required fields are cracked into the
  descriptor and checked, then the optional ones are looked up.  \<open>ms_of\<close> stands
  for \<^verbatim>\<open>(int) (atof (buf) * 1000.0)\<close> on the text that \<^verbatim>\<open>getRealFITS\<close>
  prepares: the floating-point conversion is a parameter of the model.
\<close>

definition readFITSHeader_optional :: "(string \<Rightarrow> int) \<Rightarrow> FImage \<Rightarrow> FImage" where
  "readFITSHeader_optional ms_of fip2 =
     (let fip3 = (case getIntFITS fip2 ''XFACTOR'' of
                    Some i \<Rightarrow> fip2\<lparr>bx := i\<rparr> | None \<Rightarrow> fip2);
          fip4 = (case getIntFITS fip3 ''YFACTOR'' of
                    Some i \<Rightarrow> fip3\<lparr>by' := i\<rparr> | None \<Rightarrow> fip3);
          fip5 = (case getIntFITS fip4 ''OFFSET1'' of
                    Some i \<Rightarrow> fip4\<lparr>sx := i\<rparr> | None \<Rightarrow> fip4);
          fip6 = (case getIntFITS fip5 ''OFFSET2'' of
                    Some i \<Rightarrow> fip5\<lparr>sy := i\<rparr> | None \<Rightarrow> fip5);
          fip7 = (case getRealFITS_text fip6 ''EXPTIME'' of
                    Some buf \<Rightarrow> fip6\<lparr>dur := ms_of buf\<rparr> | None \<Rightarrow> fip6)
      in fip7)"

definition readFITSHeader_crack :: "(string \<Rightarrow> int) \<Rightarrow> FImage \<Rightarrow> string + FImage" where
  "readFITSHeader_crack ms_of fip =
     (case getLogicalFITS fip ''SIMPLE'' of
        None \<Rightarrow> Inl ''File must claim to be a SIMPLE image.''
      | Some i \<Rightarrow>
          if i = 0 then Inl ''File must claim to be a SIMPLE image.''
          else
            (case getIntFITS fip ''BITPIX'' of
               None \<Rightarrow> Inl ''File must include BITPIX value of 16, 32, or -32''
             | Some i \<Rightarrow>
                 if i \<noteq> 16 \<and> i \<noteq> 32 \<and> i \<noteq> - 32 then
                   Inl ''File must include BITPIX value of 16, 32, or -32''
                 else
                   (let fip1 = fip\<lparr>bitpix := i\<rparr>
                    in case getNAXIS fip1 of
                         Inl msg \<Rightarrow> Inl msg
                       | Inr (n1, n2) \<Rightarrow>
                           Inr (readFITSHeader_optional ms_of (fip1\<lparr>sw := n1, sh := n2\<rparr>)))))"

text \<open>
  \<^verbatim>\<open>readFITSHeader\<close>: \<^verbatim>\<open>initFImage (fip)\<close> first, so that what the descriptor
  held before plays no part; \<^verbatim>\<open>resetFImage (fip)\<close> at the label \<^verbatim>\<open>err\<close>.
\<close>

definition readFITSHeader ::
  "(string \<Rightarrow> int) \<Rightarrow> infile \<Rightarrow> FImage \<Rightarrow> heap \<Rightarrow> status \<times> FImage \<times> infile \<times> heap" where
  "readFITSHeader ms_of fd fip h =
     (case hdr_loop initFImage fd h 0 False of
        (ERR msg, fip1, fd1, h1) \<Rightarrow>
          (let (fip2, h2) = resetFImage fip1 h1 in (ERR msg, fip2, fd1, h2))
      | (OK, fip1, fd1, h1) \<Rightarrow>
          (case readFITSHeader_crack ms_of fip1 of
             Inl msg \<Rightarrow> (let (fip2, h2) = resetFImage fip1 h1 in (ERR msg, fip2, fd1, h2))
           | Inr fip2 \<Rightarrow> (OK, fip2, fd1, h1)))"

subsection \<open>Single-precision floats\<close>

text \<open>
  What \<^verbatim>\<open>((float*)imdata)[ntot]\<close> reads from a 32-bit object: the IEEE-754
  single-precision number with these bits (sign, eight bits of exponent, 23 bits of
  fraction), as a rational number, an infinity or a NaN.
\<close>

datatype cfloat = FNaN | FInf bool | FFin rat

definition float_of_bits :: "int \<Rightarrow> cfloat" where
  "float_of_bits u =
     (let s = bit u 31;
          e = take_bit 8 (drop_bit 23 u);
          m = take_bit 23 u;
          sg = (if s then - 1 else 1)
      in if e = 255 then (if m = 0 then FInf s else FNaN)
         else if e = 0 then FFin (sg * of_int m / 2 ^ 149)
         else if 150 \<le> e then FFin (sg * of_int ((2 ^ 23 + m) * 2 ^ nat (e - 150)))
         else FFin (sg * of_int (2 ^ 23 + m) / 2 ^ nat (150 - e)))"

text \<open>\<^verbatim>\<open>value < k\<close> and \<^verbatim>\<open>value > k\<close> for an integer \<open>k\<close>: false on a NaN.\<close>

definition float_less :: "cfloat \<Rightarrow> int \<Rightarrow> bool" where
  "float_less v k = (case v of FNaN \<Rightarrow> False | FInf neg \<Rightarrow> neg | FFin r \<Rightarrow> r < of_int k)"

definition float_greater :: "cfloat \<Rightarrow> int \<Rightarrow> bool" where
  "float_greater v k =
     (case v of FNaN \<Rightarrow> False | FInf neg \<Rightarrow> \<not> neg | FFin r \<Rightarrow> of_int k < r)"

text \<open>
  \<^verbatim>\<open>(unsigned short) value\<close>: the fraction is discarded; C defines the conversion
  only when the truncated number is one of \<^verbatim>\<open>unsigned short\<close>, so not for a NaN.
\<close>

definition ushort_of_float :: "cfloat \<Rightarrow> int option" where
  "ushort_of_float v =
     (case v of
        FFin r \<Rightarrow>
          (let t = (if 0 \<le> r then \<lfloor>r\<rfloor> else \<lceil>r\<rceil>)
           in if 0 \<le> t \<and> t \<le> 65535 then Some t else None)
      | _ \<Rightarrow> None)"

text \<open>
  The body of the loop in the branch \<^verbatim>\<open>fip->bitpix == -32\<close> of \<^verbatim>\<open>readFITS\<close>, as C
  defines it: the two comparisons and the cast.  Both comparisons are false on a
  NaN, which so reaches the cast, and there C names no value.
\<close>

definition float_pixel :: "int \<Rightarrow> int option" where
  "float_pixel u =
     (let v0 = float_of_bits u;
          v1 = (if float_less v0 0 then FFin 0 else v0);
          v2 = (if float_greater v1 65535 then FFin 65535 else v1)
      in ushort_of_float v2)"

text \<open>
  What the compiled program stores where C names no value.  The conversion
  instruction leaves for a NaN an integer whose low 16 bits are zero
  (\<open>0x80000000\<close> on x86, \<open>0\<close> on ARM), and the store keeps those 16 bits.  Every
  other sample of the image is converted as if this one were not there.
\<close>

definition nan_ushort :: int where
  "nan_ushort = 0"

definition float_stored :: "int \<Rightarrow> int" where
  "float_stored u = (case float_pixel u of Some v \<Rightarrow> v | None \<Rightarrow> nan_ushort)"

fun float16 :: "bool \<Rightarrow> nat \<Rightarrow> char list \<Rightarrow> char list" where
  "float16 le (Suc n) (c0 # c1 # c2 # c3 # cs) =
     store16 le (float_stored (load32 le c0 c1 c2 c3)) @ float16 le n cs"
| "float16 le n cs = []"

subsection \<open>The pixels\<close>

text \<open>
  The loop \<^verbatim>\<open>for (ntot = 0; ntot < nbytesfile; ntot += s)\<close> around \<^verbatim>\<open>read\<close>.  The
  first argument tells whether \<^verbatim>\<open>imdata\<close> is memory at all: \<^verbatim>\<open>malloc\<close> of
  \<^verbatim>\<open>imdata\<close> is not checked, and \<^verbatim>\<open>read\<close> into a null pointer fails.
\<close>

function read_loop ::
  "bool \<Rightarrow> nat \<Rightarrow> char list \<Rightarrow> infile \<Rightarrow> (string + char list) \<times> infile" where
  "read_loop imdata_ok left got fd =
     (if left = 0 then (Inr got, fd)
      else if \<not> imdata_ok then (Inl ''Bad address'', fd)
      else case fd_read fd left of
             (Inl e, fd') \<Rightarrow> (Inl e, fd')
           | (Inr s, fd') \<Rightarrow>
               if s = [] then (Inl ''data is short'', fd')
               else read_loop imdata_ok (left - length s) (got @ s) fd')"
  by pat_completeness auto
termination
  by (relation "measure (\<lambda>(imdata_ok, left, got, fd). left)") auto

declare read_loop.simps [simp del]

text \<open>
  The conversion to 16-bit pixels at the end of \<^verbatim>\<open>readFITS\<close>.  The result is the
  content of \<^verbatim>\<open>fip->image\<close>.  \<open>fresh\<close> is what \<^verbatim>\<open>malloc\<close> returned: no branch is
  taken for another bit depth.
\<close>

definition readFITS_convert ::
  "bool \<Rightarrow> int \<Rightarrow> char list \<Rightarrow> int \<Rightarrow> char list \<Rightarrow> char list" where
  "readFITS_convert le bpp imdata npixels fresh =
     (if bpp = 16 then
        copy16 le (nat npixels) (unFITSPixels le imdata npixels)
      else if bpp = 32 then
        narrow32 le (nat npixels) (unFITSPixelsInt le imdata npixels)
      else if bpp = - 32 then
        float16 le (nat npixels) (unFITSPixelsFloat le imdata npixels)
      else fresh)"

text \<open>
  \<^verbatim>\<open>readFITS\<close>.  The memory that \<^verbatim>\<open>malloc\<close> returns for the pixels is
  written in full before anything reads it; until then it is shown as zero bytes.
  Every call returns: the result is \<^term>\<open>Some\<close> of the status, the descriptor, the
  file and the heap.
\<close>

definition readFITS ::
  "bool \<Rightarrow> (string \<Rightarrow> int) \<Rightarrow> infile \<Rightarrow> FImage \<Rightarrow> heap
     \<Rightarrow> (status \<times> FImage \<times> infile \<times> heap) option" where
  "readFITS le ms_of fd fip h =
     (case readFITSHeader ms_of fd fip h of
        (ERR msg, fip1, fd1, h1) \<Rightarrow> Some (ERR msg, fip1, fd1, h1)
      | (OK, fip1, fd1, h1) \<Rightarrow>
          (let npixels = sw fip1 * sh fip1;
               nbytesfile = cdiv (npixels * \<bar>bitpix fip1\<bar>) 8;
               nbytesimage = npixels * 2;
               (image_ok, h2) = malloc h1
           in if \<not> image_ok then
                (let (fip2, h3) = resetFImage fip1 h2
                 in Some (ERR (''Could not malloc '' @ fmt_d nbytesimage @ '' for pixels''),
                          fip2, fd1, h3))
              else
                (let fresh = replicate (nat nbytesimage) NUL;
                     fip2 = fip1\<lparr>image' := Some fresh\<rparr>;
                     (imdata_ok, h3) = malloc h2
                 in case read_loop imdata_ok (nat nbytesfile) [] fd1 of
                      (Inl msg, fd2) \<Rightarrow>
                        (let (fip3, h4) = resetFImage fip2 h3;
                             h5 = (if imdata_ok then free h4 else h4)
                         in Some (ERR msg, fip3, fd2, h5))
                    | (Inr imdata, fd2) \<Rightarrow>
                        (let img = readFITS_convert le (bitpix fip1) imdata npixels fresh
                         in Some (OK, fip2\<lparr>image' := Some img, bitpix := 16\<rparr>, fd2,
                                  if imdata_ok then free h3 else h3)))))"

section \<open>Well-formed stores and example descriptors\<close>

text \<open>
  The store invariant of the spec: the count is the number of rows, and every row
  has 80 characters.
\<close>

definition store_ok :: "FImage \<Rightarrow> bool" where
  "store_ok fip =
     (nvar fip = int (length (rows fip)) \<and> list_all (\<lambda>r. length r = FITS_HCOLS) (rows fip))"

text \<open>A row bears a name when its first eight columns are the name, padded.\<close>

definition bears :: "string \<Rightarrow> FITSRow \<Rightarrow> bool" where
  "bears name row = (take 8 row = fmt_ls 8 8 name)"

text \<open>A heap on which every allocation succeeds, with nothing live.\<close>

definition heap0 :: heap where
  "heap0 = \<lparr>alloc_plan = [], live = 0\<rparr>"

text \<open>A descriptor with one comment row.\<close>

definition ex_comment :: FImage where
  "ex_comment = fst (setCommentFITS initFImage ''COMMENT'' ''made by hand'' heap0)"

text \<open>A file open for writing on which every call of \<^verbatim>\<open>write\<close> is complete.\<close>

definition out0 :: outfile where
  "out0 = \<lparr>written = [], wr_plan = []\<rparr>"

text \<open>
  The words of the spec for the string parse: the content of a string row is what
  stands between the opening quote in column 11 and the next quote; stripping
  removes blanks at the end, or at the front.
\<close>

definition string_content :: "FITSRow \<Rightarrow> string" where
  "string_content row = takeWhile (\<lambda>c. c \<noteq> QUOTE) (drop 11 row)"

definition rstrip :: "string \<Rightarrow> string" where
  "rstrip s = rev (dropWhile (\<lambda>c. c = SP) (rev s))"

definition lstrip :: "string \<Rightarrow> string" where
  "lstrip s = dropWhile (\<lambda>c. c = SP) s"

text \<open>A descriptor with one string row, whose value starts with two blanks.\<close>

definition ex_object :: FImage where
  "ex_object = fst (setStringFITS initFImage ''OBJECT'' ''  M31'' None heap0)"

text \<open>The values of a C \<^verbatim>\<open>int\<close> (32 bits).\<close>

definition int_range :: "int \<Rightarrow> bool" where
  "int_range v = (- 2147483648 \<le> v \<and> v \<le> 2147483647)"

text \<open>The next call of the allocator returns memory.\<close>

definition next_alloc_ok :: "heap \<Rightarrow> bool" where
  "next_alloc_ok h = (case alloc_plan h of [] \<Rightarrow> True | ok # plan \<Rightarrow> ok)"

text \<open>A descriptor with two rows of the same name: a comment of 80 characters.\<close>

definition ex_two_comments :: FImage where
  "ex_two_comments =
     fst (setCommentFITS initFImage ''COMMENT'' (replicate 80 (CHR ''c'')) heap0)"

text \<open>The rows of 80 bytes that a file starts with, and the test on their first three bytes.\<close>

function rows_of :: "char list \<Rightarrow> FITSRow list" where
  "rows_of bs = (if length bs < 80 then [] else take 80 bs # rows_of (drop 80 bs))"
  by pat_completeness auto
termination
  by (relation "measure length") auto

declare rows_of.simps [simp del]

definition is_END :: "FITSRow \<Rightarrow> bool" where
  "is_END row = (take 3 row = ''END'')"

definition not_END :: "FITSRow \<Rightarrow> bool" where
  "not_END row = (take 3 row \<noteq> ''END'')"

text \<open>A heap on which every allocation to come succeeds.\<close>

definition allocs_ok :: "heap \<Rightarrow> bool" where
  "allocs_ok h = list_all (\<lambda>ok. ok) (alloc_plan h)"

text \<open>
  A file of six rows that ends after the sixth: a complete minimal header, but with
  a row of the keyword \<^verbatim>\<open>ENDX\<close> where \<^verbatim>\<open>END\<close> belongs.
\<close>

definition ex_endx_file :: infile where
  "ex_endx_file =
     \<lparr>pending = concat [fmtLogicalFITS ''SIMPLE'' 1 None, fmtIntFITS ''BITPIX'' 16 None,
                         fmtIntFITS ''NAXIS'' 2 None, fmtIntFITS ''NAXIS1'' 3 None,
                         fmtIntFITS ''NAXIS2'' 2 None, ljust 80 ''ENDX    = 1''],
      rd_plan = []\<rparr>"

text \<open>
  A file with a complete header that declares \<^verbatim>\<open>NAXIS = 1\<close>, together with
  \<^verbatim>\<open>NAXIS1\<close> and \<^verbatim>\<open>NAXIS2\<close>, and ends after \<^verbatim>\<open>END\<close>; the store that the
  loop of \<^verbatim>\<open>readFITSHeader\<close> builds from it; and a conversion for headers
  without \<^verbatim>\<open>EXPTIME\<close>.
\<close>

definition ex_naxis1_file :: infile where
  "ex_naxis1_file =
     \<lparr>pending = concat [fmtLogicalFITS ''SIMPLE'' 1 None, fmtIntFITS ''BITPIX'' 16 None,
                         fmtIntFITS ''NAXIS'' 1 None, fmtIntFITS ''NAXIS1'' 3 None,
                         fmtIntFITS ''NAXIS2'' 2 None, fmtENDFITS],
      rd_plan = []\<rparr>"

definition ex_naxis1 :: FImage where
  "ex_naxis1 = fst (snd (hdr_loop initFImage ex_naxis1_file heap0 0 False))"

definition ms_zero :: "string \<Rightarrow> int" where
  "ms_zero buf = 0"

text \<open>
  An empty file open for reading; a descriptor with a header row and a 2 by 1
  image; and a file open for writing that takes a header block and then nothing.
\<close>

definition ex_empty_file :: infile where
  "ex_empty_file = \<lparr>pending = [], rd_plan = []\<rparr>"

definition ex_pix :: FImage where
  "ex_pix = ex_comment\<lparr>sw := 2, sh := 1,
                        image' := Some [CHR 0x34, CHR 0x12, CHR 0xFF, CHR 0x80]\<rparr>"

definition out_short :: outfile where
  "out_short = \<lparr>written = [], wr_plan = [IoFull, IoUpTo 0]\<rparr>"

text \<open>The number of buffers a descriptor holds.\<close>

definition held :: "FImage \<Rightarrow> int" where
  "held fip = (if var fip = None then 0 else 1) + (if image' fip = None then 0 else 1)"










text \<open>
  A file of six float samples, most significant byte first: \<open>1.5\<close>, a NaN,
  \<open>70000\<close>, \<open>-3\<close>, \<open>1000.75\<close> and the subnormal \<open>2\<^sup>-\<^sup>1\<^sup>4\<^sup>9\<close>.
\<close>

definition ex_floats :: "char list" where
  "ex_floats = [CHR 0x3F, CHR 0xC0, CHR 0x00, CHR 0x00,
                CHR 0x7F, CHR 0xC0, CHR 0x00, CHR 0x00,
                CHR 0x47, CHR 0x88, CHR 0xB8, CHR 0x00,
                CHR 0xC0, CHR 0x40, CHR 0x00, CHR 0x00,
                CHR 0x44, CHR 0x7A, CHR 0x30, CHR 0x00,
                CHR 0x00, CHR 0x00, CHR 0x00, CHR 0x01]"

section \<open>Properties of the pixel codec\<close>



















lemma pixloop16_length: "length (pixloop16 le f n cs) = length cs"
  by (induction le f n cs rule: pixloop16.induct) (auto simp: store16_def Let_def)



section \<open>Properties of the header store\<close>

lemma length_ljust: "length (ljust w s) = max w (length s)"
  by (simp add: ljust_def)

lemma length_rjust: "length (rjust w s) = max w (length s)"
  by (simp add: rjust_def)

lemma length_fmt_ls [simp]: "length (fmt_ls n n s) = n"
  by (simp add: fmt_ls_def ljust_def)

lemma NUL_notin_cstr: "NUL \<notin> set (cstr s)"
  unfolding cstr_def by (induction s) auto

lemma NUL_notin_fmt_ls: "NUL \<notin> set (fmt_ls w p s)"
proof -
  have "set (take p (cstr s)) \<subseteq> set (cstr s)" by (rule set_take_subset)
  with NUL_notin_cstr[of s] have "NUL \<notin> set (take p (cstr s))" by blast
  then show ?thesis by (auto simp: fmt_ls_def ljust_def NUL_def SP_def)
qed

lemma strncmp_eq_take:
  "NUL \<notin> set a \<Longrightarrow> strncmp_eq (a @ t) b (length a) = (take (length a) b = a)"
proof (induction a arbitrary: b)
  case Nil
  then show ?case by simp
next
  case (Cons x xs)
  then show ?case by (cases b) auto
qed

lemma strncmp_field: "strncmp_eq (fmt_ls 8 8 name @ [NUL]) row 8 = bears name row"
  using strncmp_eq_take[OF NUL_notin_fmt_ls, of 8 8 name "[NUL]" row]
  by (simp add: bears_def)

lemma strncmp_END: "strncmp_eq row (''END'' @ [NUL]) 3 = (take 3 row = ''END'')"
proof -
  have "strncmp_eq row (''END'' @ [NUL]) 3 = strncmp_eq row (CHR ''E'' # CHR ''N'' # CHR ''D'' # [NUL]) (Suc (Suc (Suc 0)))"
    by (simp add: numeral_3_eq_3)
  also have "\<dots> = (take 3 row = ''END'')"
  proof (cases row)
    case Nil then show ?thesis by simp
  next
    case (Cons a r1)
    show ?thesis
    proof (cases r1)
      case Nil with Cons show ?thesis by (auto simp: NUL_def)
    next
      case (Cons b r2)
      note c2 = this
      show ?thesis
      proof (cases r2)
        case Nil with c2 \<open>row = a # r1\<close> show ?thesis by (auto simp: NUL_def)
      next
        case (Cons c r3)
        with c2 \<open>row = a # r1\<close> show ?thesis by (auto simp: NUL_def)
      qed
    qed
  qed
  finally show ?thesis .
qed

lemma find_row_Some:
  "find_row f rs i = Some k \<Longrightarrow>
     i \<le> k \<and> k - i < length rs \<and> strncmp_eq f (rs ! (k - i)) 8 \<and>
     (\<forall>j < k - i. \<not> strncmp_eq f (rs ! j) 8)"
proof (induction rs arbitrary: i)
  case Nil
  then show ?case by simp
next
  case (Cons r rs)
  show ?case
  proof (cases "strncmp_eq f r 8")
    case True
    with Cons.prems show ?thesis by simp
  next
    case False
    with Cons.prems have "find_row f rs (Suc i) = Some k" by simp
    from Cons.IH[OF this] have k: "Suc i \<le> k" "k - Suc i < length rs"
      "strncmp_eq f (rs ! (k - Suc i)) 8" "\<forall>j < k - Suc i. \<not> strncmp_eq f (rs ! j) 8"
      by simp_all
    from k(1) have e: "k - i = Suc (k - Suc i)" by simp
    have "\<forall>j < k - i. \<not> strncmp_eq f ((r # rs) ! j) 8"
    proof (intro allI impI)
      fix j assume "j < k - i"
      then show "\<not> strncmp_eq f ((r # rs) ! j) 8"
        using False k(4) e by (cases j) auto
    qed
    with k e show ?thesis by simp
  qed
qed

lemma find_row_None:
  "find_row f rs i = None \<Longrightarrow> \<forall>r \<in> set rs. \<not> strncmp_eq f r 8"
  by (induction rs arbitrary: i) (auto split: if_splits)

lemma find_row_first:
  "k < length rs \<Longrightarrow> strncmp_eq f (rs ! k) 8 \<Longrightarrow> \<forall>j < k. \<not> strncmp_eq f (rs ! j) 8
   \<Longrightarrow> find_row f rs i = Some (i + k)"
proof (induction rs arbitrary: i k)
  case Nil
  then show ?case by simp
next
  case (Cons r rs)
  show ?case
  proof (cases k)
    case 0
    with Cons.prems show ?thesis by simp
  next
    case (Suc k')
    with Cons.prems have nf: "\<not> strncmp_eq f r 8" by auto
    from Suc Cons.prems have "k' < length rs" "strncmp_eq f (rs ! k') 8"
      "\<forall>j < k'. \<not> strncmp_eq f (rs ! j) 8" by auto
    from Cons.IH[OF this, of "Suc i"] nf Suc show ?thesis by simp
  qed
qed

lemma findFImageVar_Some:
  assumes "findFImageVar fip name = Some rp"
  shows "rp < nat (nvar fip)" "rp < length (rows fip)" "bears name (rows fip ! rp)"
    "\<forall>j < rp. \<not> bears name (rows fip ! j)"
proof -
  let ?rs = "take (nat (nvar fip)) (rows fip)"
  from assms have "find_row (fmt_ls 8 8 name @ [NUL]) ?rs 0 = Some rp"
    by (simp add: findFImageVar_def)
  from find_row_Some[OF this]
  have a: "rp < length ?rs" "strncmp_eq (fmt_ls 8 8 name @ [NUL]) (?rs ! rp) 8"
    "\<forall>j < rp. \<not> strncmp_eq (fmt_ls 8 8 name @ [NUL]) (?rs ! j) 8"
    by auto
  from a(1) show "rp < nat (nvar fip)" "rp < length (rows fip)" by simp_all
  from a(1,2) show "bears name (rows fip ! rp)" by (simp add: strncmp_field)
  from a(1,3) show "\<forall>j < rp. \<not> bears name (rows fip ! j)"
    by (simp add: strncmp_field)
qed

lemma findFImageVar_None:
  assumes "findFImageVar fip name = None"
  shows "\<forall>r \<in> set (take (nat (nvar fip)) (rows fip)). \<not> bears name r"
  using find_row_None[of "fmt_ls 8 8 name @ [NUL]" "take (nat (nvar fip)) (rows fip)" 0] assms
  by (simp add: findFImageVar_def strncmp_field)

lemma findFImageVar_first:
  assumes "rp < nat (nvar fip)" "rp < length (rows fip)" "bears name (rows fip ! rp)"
    "\<forall>j < rp. \<not> bears name (rows fip ! j)"
  shows "findFImageVar fip name = Some rp"
proof -
  let ?rs = "take (nat (nvar fip)) (rows fip)"
  have "find_row (fmt_ls 8 8 name @ [NUL]) ?rs 0 = Some (0 + rp)"
    by (rule find_row_first) (use assms in \<open>simp_all add: strncmp_field\<close>)
  then show ?thesis by (simp add: findFImageVar_def)
qed

lemma rows_put_row [simp]: "rows (put_row fip i row) = (rows fip)[i := row]"
  by (simp add: put_row_def rows_def)

lemma nvar_put_row [simp]: "nvar (put_row fip i row) = nvar fip"
  by (simp add: put_row_def)

text \<open>
  Claim C10.  \<^verbatim>\<open>setCommentFITS\<close> with an empty text adds no row: the descriptor
  (the rows of the store and their count) and the heap come back as they were.
\<close>

theorem C10_empty_comment_adds_nothing:
  "setCommentFITS fip name [] h = (fip, h)"
  by (simp add: setCommentFITS_def cstr_def setComment_loop.simps)

text \<open>
  Claim C9.  When \<^verbatim>\<open>getCommentFITS\<close> finds the row, it returns 0, the first 72
  bytes of the caller's buffer are the first 72 bytes of the row, and the byte
  written last, the NUL, lands in column 73 of the row inside the store; the
  caller's buffer is as it was from its byte 73 on.
\<close>

theorem C9_getCommentFITS_writes_store:
  assumes "findFImageVar fip name = Some rp"
    and "store_ok fip" and "73 \<le> length buf"
  shows "case getCommentFITS fip name buf of
           (ret, fip', buf') \<Rightarrow>
             ret = 0 \<and>
             rows fip' = (rows fip)[rp := (rows fip ! rp)[72 := NUL]] \<and>
             rows fip' ! rp ! 72 = NUL \<and>
             take 72 buf' = take 72 (rows fip ! rp) \<and>
             drop 72 buf' = drop 72 buf \<and>
             buf' ! 72 = buf ! 72"
proof -
  from findFImageVar_Some[OF assms(1)] have rp: "rp < length (rows fip)" by simp
  with assms(2) have len: "length (rows fip ! rp) = 80"
    by (simp add: store_ok_def list_all_length FITS_HCOLS_def)
  have "(take 72 (rows fip ! rp) @ drop 72 buf) ! 72 = drop 72 buf ! 0"
    using len by (simp add: nth_append)
  also have "\<dots> = buf ! 72" using assms(3) by simp
  finally show ?thesis
    using assms(1) rp len by (simp add: getCommentFITS_def Let_def)
qed

text \<open>
  The descriptor with one comment row and a buffer of 80 letters: column 73 of the
  row was a blank before the call.
\<close>

theorem C9_getCommentFITS_writes_store_witness:
  "findFImageVar ex_comment ''COMMENT'' = Some 0 \<and> store_ok ex_comment \<and>
   73 \<le> length (replicate 80 (CHR ''x'')) \<and>
   (case getCommentFITS ex_comment ''COMMENT'' (replicate 80 (CHR ''x'')) of
      (ret, fip', buf') \<Rightarrow>
        ret = 0 \<and>
        rows fip' = (rows ex_comment)[0 := (rows ex_comment ! 0)[72 := NUL]] \<and>
        rows fip' ! 0 ! 72 = NUL \<and>
        take 72 buf' = take 72 (rows ex_comment ! 0) \<and>
        drop 72 buf' = drop 72 (replicate 80 (CHR ''x'')) \<and>
        buf' ! 72 = replicate 80 (CHR ''x'') ! 72) \<and>
   rows ex_comment ! 0 ! 72 = SP"
proof -
  have f: "findFImageVar ex_comment ''COMMENT'' = Some 0" by code_simp
  have k: "store_ok ex_comment" by code_simp
  have l: "73 \<le> length (replicate 80 (CHR ''x''))" by simp
  have s: "rows ex_comment ! 0 ! 72 = SP" by code_simp
  from f k l s C9_getCommentFITS_writes_store[OF f k l] show ?thesis by blast
qed

section \<open>Properties of the string parse\<close>

lemma strip_back_eq: "strip_back s = dropWhile (\<lambda>c. c = SP) s"
  by (induction s) auto

lemma getString_loop_eq:
  "getString_loop cs out =
     (if QUOTE \<in> set cs
      then Some (rev (strip_back (rev (takeWhile (\<lambda>c. c \<noteq> QUOTE) cs) @ out)))
      else None)"
  by (induction cs arbitrary: out) auto

text \<open>
  Claim C7, amended.  For a stored string row, \<^verbatim>\<open>getStringFITS\<close> returns what
  stands between the quote in column 11 and the next quote, with the blanks at its
  end stripped and the blanks at its front kept.  It fails when no row bears the
  name, when column 11 holds no quote, and when no quote follows in columns 12 to
  80.
\<close>

theorem C7_getStringFITS_trailing_only:
  assumes "store_ok fip"
  shows "getStringFITS fip name =
           (case findFImageVar fip name of
              None \<Rightarrow> None
            | Some rp \<Rightarrow>
                if rows fip ! rp ! 10 \<noteq> QUOTE then None
                else if QUOTE \<notin> set (drop 11 (rows fip ! rp)) then None
                else Some (rstrip (string_content (rows fip ! rp))))"
proof (cases "findFImageVar fip name")
  case None
  then show ?thesis by (simp add: getStringFITS_def)
next
  case (Some rp)
  from findFImageVar_Some[OF Some] have "rp < length (rows fip)" by simp
  with assms have "length (rows fip ! rp) = FITS_HCOLS"
    by (simp add: store_ok_def list_all_length)
  then have "take FITS_HCOLS (rows fip ! rp) = rows fip ! rp" by simp
  with Some show ?thesis
    by (simp add: getStringFITS_def Let_def getString_loop_eq strip_back_eq rstrip_def
        string_content_def)
qed

text \<open>
  Claim C7 as stated fails: the row \<^verbatim>\<open>OBJECT  = '  M31   '\<close> parses to the
  value with its two leading blanks, where stripping on both sides gives
  \<^verbatim>\<open>M31\<close>.
\<close>

theorem C7_counterexample:
  "getStringFITS ex_object ''OBJECT'' = Some ''  M31'' \<and>
   string_content (rows ex_object ! 0) = ''  M31   '' \<and>
   lstrip (rstrip (string_content (rows ex_object ! 0))) = ''M31''"
  by code_simp

text \<open>The same row, with the hypothesis of the theorem discharged.\<close>

theorem C7_getStringFITS_trailing_only_witness:
  "store_ok ex_object \<and> findFImageVar ex_object ''OBJECT'' = Some 0 \<and>
   rows ex_object ! 0 ! 10 = QUOTE \<and> QUOTE \<in> set (drop 11 (rows ex_object ! 0)) \<and>
   getStringFITS ex_object ''OBJECT'' = Some (rstrip (string_content (rows ex_object ! 0)))"
proof -
  have k: "store_ok ex_object" by code_simp
  have f: "findFImageVar ex_object ''OBJECT'' = Some 0" by code_simp
  have q: "rows ex_object ! 0 ! 10 = QUOTE" by code_simp
  have q': "QUOTE \<in> set (drop 11 (rows ex_object ! 0))" by code_simp
  from C7_getStringFITS_trailing_only[OF k, of "''OBJECT''"] f q q'
  have "getStringFITS ex_object ''OBJECT'' = Some (rstrip (string_content (rows ex_object ! 0)))"
    by simp
  with k f q q' show ?thesis by blast
qed

section \<open>Properties of setting a field\<close>

lemma isdigit_digit_char: "d < 10 \<Longrightarrow> isdigit (digit_char d)"
  by (simp add: isdigit_def digit_char_def)

lemma of_char_digit_char: "d < 10 \<Longrightarrow> (of_char (digit_char d) :: nat) = 48 + d"
  by (simp add: digit_char_def)

lemma length_digits: "n < 10 ^ k \<Longrightarrow> 0 < k \<Longrightarrow> length (digits n) \<le> k"
proof (induction n arbitrary: k rule: digits.induct)
  case (1 n)
  show ?case
  proof (cases "n < 10")
    case True
    then show ?thesis using 1(3) by (simp add: digits.simps[of n])
  next
    case False
    then obtain k' where k': "k = Suc k'" "0 < k'"
      using 1(2,3) by (cases k; cases "k - 1") auto
    from 1(2) k' have "n div 10 < 10 ^ k'" by (simp add: less_mult_imp_div_less)
    from 1(1)[OF False this k'(2)] False k' show ?thesis
      by (simp add: digits.simps[of n])
  qed
qed

lemma digits_nonempty: "digits n \<noteq> []"
  by (subst digits.simps) simp

lemma length_fmt_d: "int_range v \<Longrightarrow> length (fmt_d v) \<le> 11"
proof -
  assume r: "int_range v"
  show ?thesis
  proof (cases "v < 0")
    case True
    with r have "nat (- v) < 10 ^ 10" by (simp add: int_range_def)
    from length_digits[OF this] True show ?thesis by (simp add: fmt_d_def)
  next
    case False
    with r have "nat v < 10 ^ 10" by (simp add: int_range_def)
    from length_digits[OF this] False show ?thesis by (simp add: fmt_d_def)
  qed
qed

lemma atoi_digits_digits:
  "atoi_digits acc (digits n @ rest) = atoi_digits (acc * 10 ^ length (digits n) + int n) rest"
proof (induction n arbitrary: acc rest rule: digits.induct)
  case (1 n)
  show ?case
  proof (cases "n < 10")
    case True
    then show ?thesis
      by (simp add: digits.simps[of n] isdigit_digit_char of_char_digit_char mult.commute)
  next
    case False
    have d: "n mod 10 < 10" by simp
    have "int n = int (10 * (n div 10) + n mod 10)" by simp
    then have n: "int n = 10 * int (n div 10) + int (n mod 10)"
      by (simp only: of_nat_add of_nat_mult of_nat_numeral)
    have "atoi_digits acc (digits n @ rest)
          = atoi_digits acc (digits (n div 10) @ digit_char (n mod 10) # rest)"
      using False by (simp add: digits.simps[of n])
    also have "\<dots> = atoi_digits (acc * 10 ^ length (digits (n div 10)) + int (n div 10))
                        (digit_char (n mod 10) # rest)"
      by (rule 1[OF False])
    also have "\<dots> = atoi_digits (10 * (acc * 10 ^ length (digits (n div 10)) + int (n div 10))
                          + int (n mod 10)) rest"
      using d by (simp add: isdigit_digit_char of_char_digit_char)
    also have "10 * (acc * 10 ^ length (digits (n div 10)) + int (n div 10)) + int (n mod 10)
               = acc * 10 ^ length (digits n) + int n"
      using False by (subst n) (simp add: digits.simps[of n] algebra_simps)
    finally show ?thesis .
  qed
qed

lemma isdigit_hd_digits: "isdigit (hd (digits n))"
proof (induction n rule: digits.induct)
  case (1 n)
  show ?case
  proof (cases "n < 10")
    case True
    then show ?thesis by (simp add: digits.simps[of n] isdigit_digit_char)
  next
    case False
    with 1 digits_nonempty[of "n div 10"] show ?thesis
      by (simp add: digits.simps[of n])
  qed
qed

lemma not_isspace_digit: "isdigit c \<Longrightarrow> \<not> isspace c"
  by (auto simp: isdigit_def isspace_def SP_def)

lemma isspace_SP: "isspace SP"
  by (simp add: isspace_def)

lemma not_isdigit_SP: "\<not> isdigit SP"
  by (simp add: isdigit_def SP_def)

lemma atoi_fmt_d: "atoi (replicate k SP @ fmt_d v @ SP # rest) = v"
proof -
  have sp: "dropWhile isspace (replicate k SP @ xs) = dropWhile isspace xs" for xs
    by (induction k) (simp_all add: isspace_SP)
  show ?thesis
  proof (cases "v < 0")
    case True
    have "\<not> isspace (CHR ''-'')" by (simp add: isspace_def SP_def)
    then have "dropWhile isspace (replicate k SP @ fmt_d v @ SP # rest)
               = CHR ''-'' # digits (nat (- v)) @ SP # rest"
      using True by (simp add: sp fmt_d_def)
    then show ?thesis
      using True by (simp add: atoi_def atoi_digits_digits not_isdigit_SP)
  next
    case False
    obtain d ds where d: "digits (nat v) = d # ds"
      using digits_nonempty[of "nat v"] by (cases "digits (nat v)") auto
    with isdigit_hd_digits[of "nat v"] have dd: "isdigit d" by simp
    then have ns: "\<not> isspace d" by (rule not_isspace_digit)
    from dd have nm: "d \<noteq> CHR ''-''" "d \<noteq> CHR ''+''" by (auto simp: isdigit_def)
    have "dropWhile isspace (replicate k SP @ fmt_d v @ SP # rest)
               = d # ds @ SP # rest"
      using False ns by (simp add: sp fmt_d_def d)
    then have "atoi (replicate k SP @ fmt_d v @ SP # rest)
               = atoi_digits 0 (digits (nat v) @ SP # rest)"
      using nm by (simp add: atoi_def d)
    then show ?thesis
      using False by (simp add: atoi_digits_digits not_isdigit_SP)
  qed
qed

lemma fmtInlineComment_shape:
  "length line = 30 \<Longrightarrow> \<exists>tail. length tail = 49 \<and> fmtInlineComment line c = line @ SP # tail"
proof (cases c)
  case None
  assume "length line = 30"
  then have "fmtInlineComment line c = line @ SP # replicate 49 SP"
    using None by (simp add: fmtInlineComment_def rjust_def FITS_HCOLS_def
        replicate_Suc[symmetric] del: replicate_Suc)
  then show ?thesis by (intro exI[of _ "replicate 49 SP"]) simp
next
  case (Some t)
  assume "length line = 30"
  then have "fmtInlineComment line c = line @ SP # (''/ '' @ fmt_ls 47 47 t)"
    using Some by (simp add: fmtInlineComment_def FITS_HCOLS_def SP_def)
  then show ?thesis by (intro exI[of _ "''/ '' @ fmt_ls 47 47 t"]) simp
qed

lemma fmtIntFITS_shape:
  assumes "length (fmt_d v) \<le> 20"
  shows "\<exists>tail. length tail = 49 \<and>
           fmtIntFITS name v c =
             fmt_ls 8 8 name @ ''= '' @ replicate (20 - length (fmt_d v)) SP @ fmt_d v @ SP # tail"
proof -
  let ?line = "fmt_ls 8 8 name @ ''= '' @ rjust (20 - length (fmt_d v)) [] @ fmt_d v"
  have "length ?line = 30" using assms by (simp add: rjust_def)
  from fmtInlineComment_shape[OF this, of c] obtain tail where
    "length tail = 49" "fmtInlineComment ?line c = ?line @ SP # tail" by blast
  then show ?thesis
    by (intro exI[of _ tail]) (simp add: fmtIntFITS_def Let_def rjust_def)
qed

lemma fmtIntFITS_props:
  assumes "int_range v"
  shows "length (fmtIntFITS name v c) = 80"
    and "bears name (fmtIntFITS name v c)"
    and "atoi (drop 10 (fmtIntFITS name v c @ rest)) = v"
proof -
  from length_fmt_d[OF assms] have l: "length (fmt_d v) \<le> 20" by simp
  from fmtIntFITS_shape[OF l, of name c] obtain tail where t: "length tail = 49"
    and e: "fmtIntFITS name v c =
             fmt_ls 8 8 name @ ''= '' @ replicate (20 - length (fmt_d v)) SP @ fmt_d v @ SP # tail"
    by blast
  show "length (fmtIntFITS name v c) = 80" using l t by (simp add: e)
  show "bears name (fmtIntFITS name v c)" by (simp add: e bears_def)
  have "drop 10 (fmtIntFITS name v c @ rest)
        = replicate (20 - length (fmt_d v)) SP @ fmt_d v @ SP # (tail @ rest)"
    by (simp add: e)
  then show "atoi (drop 10 (fmtIntFITS name v c @ rest)) = v"
    by (simp only: atoi_fmt_d)
qed

lemma malloc_ok: "next_alloc_ok h \<Longrightarrow> fst (malloc h)"
  by (auto simp: next_alloc_ok_def malloc_def split: list.splits)

lemma realloc_ok: "next_alloc_ok h \<Longrightarrow> fst (realloc h)"
  by (auto simp: next_alloc_ok_def realloc_def split: list.splits)

lemma rows_var_update [simp]: "rows (fip\<lparr>var := Some rs, nvar := n\<rparr>) = rs"
  by (simp add: rows_def)

lemma addFImageVar_ok:
  assumes "store_ok fip" and "next_alloc_ok h" and "length row = 80"
  shows "rows (fst (addFImageVar fip row h)) = rows fip @ [row]"
    and "nvar (fst (addFImageVar fip row h)) = nvar fip + 1"
    and "store_ok (fst (addFImageVar fip row h))"
proof -
  from assms(1) have nv: "nat (nvar fip) = length (rows fip)" by (simp add: store_ok_def)
  obtain mem h' where m: "(if var fip \<noteq> None then realloc h else malloc h) = (mem, h')"
    by (cases "if var fip \<noteq> None then realloc h else malloc h")
  with malloc_ok[OF assms(2)] realloc_ok[OF assms(2)] have mem
    by (auto split: if_splits)
  with m have a: "addFImageVar fip row h =
      (fip\<lparr>var := Some (rows fip @ [row]), nvar := nvar fip + 1\<rparr>, h')"
    using assms(3) by (simp add: addFImageVar_def Let_def nv FITS_HCOLS_def)
  show "rows (fst (addFImageVar fip row h)) = rows fip @ [row]" by (simp add: a)
  show "nvar (fst (addFImageVar fip row h)) = nvar fip + 1" by (simp add: a)
  show "store_ok (fst (addFImageVar fip row h))"
    using assms(1,3) by (simp add: a store_ok_def FITS_HCOLS_def)
qed

lemma store_ok_put_row:
  "store_ok fip \<Longrightarrow> length row = 80 \<Longrightarrow> store_ok (put_row fip i row)"
  using set_update_subset_insert[of "rows fip" i row]
  by (auto simp: store_ok_def list_all_iff FITS_HCOLS_def)

lemma filter_update_same:
  "i < length xs \<Longrightarrow> P (xs ! i) \<Longrightarrow> P y \<Longrightarrow>
     length (filter P (xs[i := y])) = length (filter P xs)"
proof (induction xs arbitrary: i)
  case Nil
  then show ?case by simp
next
  case (Cons x xs)
  then show ?case by (cases i) auto
qed

lemma filter_bears_positive:
  "i < length xs \<Longrightarrow> P (xs ! i) \<Longrightarrow> 1 \<le> length (filter P xs)"
proof -
  assume "i < length xs" "P (xs ! i)"
  then have "xs ! i \<in> set (filter P xs)" by simp
  then have "filter P xs \<noteq> []" by (metis empty_iff empty_set)
  then show ?thesis by (cases "filter P xs") auto
qed

lemma getIntFITS_at:
  assumes "findFImageVar fip name = Some rp" and "rows fip ! rp = fmtIntFITS name v c"
    and "int_range v"
  shows "getIntFITS fip name = Some v"
proof -
  from findFImageVar_Some[OF assms(1)] have rp: "rp < length (rows fip)" by simp
  then have "drop rp (rows fip) = rows fip ! rp # drop (Suc rp) (rows fip)"
    by (simp add: Cons_nth_drop_Suc)
  then have "concat (drop rp (rows fip))
             = fmtIntFITS name v c @ concat (drop (Suc rp) (rows fip))"
    by (simp add: assms(2))
  then show ?thesis
    using assms(1) fmtIntFITS_props(3)[OF assms(3)]
    by (simp add: getIntFITS_def)
qed

lemma set_twice_found:
  assumes ok: "store_ok fip" and f: "findFImageVar fip name = Some rp"
    and b1: "bears name r1" and l1: "length r1 = 80"
    and b2: "bears name r2" and l2: "length r2 = 80"
  shows "findFImageVar (put_row fip rp r1) name = Some rp"
    and "store_ok (put_row fip rp r1)"
    and "rows (put_row (put_row fip rp r1) rp r2) = (rows fip)[rp := r2]"
    and "length (filter (bears name) ((rows fip)[rp := r2]))
         = max 1 (length (filter (bears name) (rows fip)))"
proof -
  note s = findFImageVar_Some[OF f]
  show "findFImageVar (put_row fip rp r1) name = Some rp"
    by (rule findFImageVar_first) (use s b1 in simp_all)
  show "store_ok (put_row fip rp r1)" by (rule store_ok_put_row[OF ok l1])
  show "rows (put_row (put_row fip rp r1) rp r2) = (rows fip)[rp := r2]" by simp
  have "length (filter (bears name) ((rows fip)[rp := r2]))
        = length (filter (bears name) (rows fip))"
    by (rule filter_update_same) (use s b2 in simp_all)
  moreover have "1 \<le> length (filter (bears name) (rows fip))"
    by (rule filter_bears_positive[of rp]) (use s in simp_all)
  ultimately show "length (filter (bears name) ((rows fip)[rp := r2]))
         = max 1 (length (filter (bears name) (rows fip)))" by simp
qed

lemma set_twice_new:
  assumes ok: "store_ok fip" and f: "findFImageVar fip name = None"
    and r: "rows f1 = rows fip @ [r1]" and n: "nvar f1 = nvar fip + 1"
    and b1: "bears name r1" and b2: "bears name r2"
  shows "findFImageVar f1 name = Some (length (rows fip))"
    and "rows (put_row f1 (length (rows fip)) r2) = rows fip @ [r2]"
    and "length (filter (bears name) (rows fip @ [r2]))
         = max 1 (length (filter (bears name) (rows fip)))"
proof -
  from ok have nv': "nvar fip = int (length (rows fip))" by (simp add: store_ok_def)
  then have nv: "nat (nvar fip) = length (rows fip)" by simp
  from findFImageVar_None[OF f] nv have none: "\<forall>r \<in> set (rows fip). \<not> bears name r"
    by simp
  show "findFImageVar f1 name = Some (length (rows fip))"
  proof (rule findFImageVar_first)
    show "length (rows fip) < nat (nvar f1)" using n nv' by simp
    show "length (rows fip) < length (rows f1)" by (simp add: r)
    show "bears name (rows f1 ! length (rows fip))" by (simp add: r b1)
    show "\<forall>j<length (rows fip). \<not> bears name (rows f1 ! j)"
      using none by (simp add: r nth_append)
  qed
  show "rows (put_row f1 (length (rows fip)) r2) = rows fip @ [r2]" by (simp add: r)
  from none have "filter (bears name) (rows fip) = []" by (simp add: filter_empty_conv)
  then show "length (filter (bears name) (rows fip @ [r2]))
         = max 1 (length (filter (bears name) (rows fip)))" using b2 by simp
qed

text \<open>
  Claim C6, amended.  For a well-formed store, values of an \<^verbatim>\<open>int\<close> and an
  allocator that returns memory for a row that has to be added: after
  \<^verbatim>\<open>setIntFITS\<close> with \<open>(name, v1)\<close> and then with \<open>(name, v2)\<close>, the first row
  bearing the name holds \<open>v2\<close> (it is the row formatted from \<open>v2\<close>, and
  \<^verbatim>\<open>getIntFITS\<close> returns \<open>v2\<close>), in the place of the first match when there was
  one and added once at the end otherwise; every other row is as it was, so the
  number of rows bearing the name is what it was before, or one when there was
  none; and the second call changes neither the count nor the heap.
\<close>

theorem C6_set_twice:
  assumes "store_ok fip" and "int_range v1" and "int_range v2" and "next_alloc_ok h"
  shows "case setIntFITS fip name v1 c1 h of
           (f1, h1) \<Rightarrow>
             (case setIntFITS f1 name v2 c2 h1 of
                (f2, h2) \<Rightarrow>
                  rows f2 = (case findFImageVar fip name of
                               Some rp \<Rightarrow> (rows fip)[rp := fmtIntFITS name v2 c2]
                             | None \<Rightarrow> rows fip @ [fmtIntFITS name v2 c2]) \<and>
                  nvar f2 = nvar f1 \<and>
                  length (rows f2) = length (rows f1) \<and>
                  h2 = h1 \<and>
                  getIntFITS f2 name = Some v2 \<and>
                  length (filter (bears name) (rows f2))
                    = max 1 (length (filter (bears name) (rows fip))) \<and>
                  store_ok f2)"
proof -
  let ?r1 = "fmtIntFITS name v1 c1" and ?r2 = "fmtIntFITS name v2 c2"
  note p1 = fmtIntFITS_props(1,2)[OF assms(2), of name c1]
  note p2 = fmtIntFITS_props(1,2)[OF assms(3), of name c2]
  show ?thesis
  proof (cases "findFImageVar fip name")
    case (Some rp)
    note t = set_twice_found[OF assms(1) Some p1(2) p1(1) p2(2) p2(1)]
    let ?f1 = "put_row fip rp ?r1"
    let ?f2 = "put_row ?f1 rp ?r2"
    have s1: "setIntFITS fip name v1 c1 h = (?f1, h)"
      by (simp add: setIntFITS_def Some)
    have s2: "setIntFITS ?f1 name v2 c2 h = (?f2, h)"
      by (simp add: setIntFITS_def t(1))
    have f2: "findFImageVar ?f2 name = Some rp"
      by (rule findFImageVar_first)
         (use findFImageVar_Some[OF Some] p2(2) in simp_all)
    have "rows ?f2 ! rp = ?r2" using findFImageVar_Some(2)[OF Some] by simp
    from getIntFITS_at[OF f2 this assms(3)] have g: "getIntFITS ?f2 name = Some v2" .
    have k: "store_ok ?f2" by (rule store_ok_put_row[OF t(2) p2(1)])
    have c: "length (filter (bears name) (rows ?f2))
             = max 1 (length (filter (bears name) (rows fip)))"
      by (simp only: t(3) t(4))
    have r: "rows ?f2 = (rows fip)[rp := ?r2]" by (rule t(3))
    have l: "length (rows ?f2) = length (rows ?f1)" by simp
    have n: "nvar ?f2 = nvar ?f1" by simp
    from c r l n g k show ?thesis
      by (simp only: s1 s2 Some prod.case option.case; simp)
  next
    case None
    let ?f1 = "fst (addFImageVar fip ?r1 h)" and ?h1 = "snd (addFImageVar fip ?r1 h)"
    note a = addFImageVar_ok[OF assms(1) assms(4) p1(1)]
    note t = set_twice_new[OF assms(1) None a(1) a(2) p1(2) p2(2)]
    let ?f2 = "put_row ?f1 (length (rows fip)) ?r2"
    have s1: "setIntFITS fip name v1 c1 h = (?f1, ?h1)"
      by (simp add: setIntFITS_def None)
    have s2: "setIntFITS ?f1 name v2 c2 ?h1 = (?f2, ?h1)"
      by (simp add: setIntFITS_def t(1))
    have f2: "findFImageVar ?f2 name = Some (length (rows fip))"
    proof (rule findFImageVar_first)
      show "length (rows fip) < nat (nvar ?f2)" using a(2) assms(1) by (simp add: store_ok_def)
      show "length (rows fip) < length (rows ?f2)" by (simp add: a(1))
      show "bears name (rows ?f2 ! length (rows fip))" by (simp add: a(1) p2(2))
      from findFImageVar_Some(4)[OF t(1)]
      show "\<forall>j<length (rows fip). \<not> bears name (rows ?f2 ! j)"
        by (simp add: a(1) nth_append)
    qed
    have "rows ?f2 ! length (rows fip) = ?r2" by (simp add: a(1))
    from getIntFITS_at[OF f2 this assms(3)] have g: "getIntFITS ?f2 name = Some v2" .
    have k: "store_ok ?f2" by (rule store_ok_put_row[OF a(3) p2(1)])
    have c: "length (filter (bears name) (rows ?f2))
             = max 1 (length (filter (bears name) (rows fip)))"
      by (simp only: t(2) t(3))
    have r: "rows ?f2 = rows fip @ [?r2]" by (rule t(2))
    have l: "length (rows ?f2) = length (rows ?f1)" by (simp add: a(1))
    have n: "nvar ?f2 = nvar ?f1" by simp
    from c r l n g k show ?thesis
      by (simp only: s1 s2 None prod.case option.case; simp)
  qed
qed

text \<open>
  Claim C6 as stated fails on a store that holds the name twice (a comment that
  took two rows): after the two calls two rows bear the name, not exactly one.
\<close>

theorem C6_counterexample:
  "store_ok ex_two_comments \<and>
   length (filter (bears ''COMMENT'') (rows ex_two_comments)) = 2 \<and>
   length (filter (bears ''COMMENT'')
     (rows (fst (setIntFITS
                   (fst (setIntFITS ex_two_comments ''COMMENT'' 1 None heap0))
                   ''COMMENT'' 2 None heap0)))) = 2"
  by code_simp

text \<open>The store with one comment row, and \<^verbatim>\<open>NAXIS\<close> set to 2 and then to 3.\<close>

theorem C6_set_twice_witness:
  "store_ok ex_comment \<and> int_range 2 \<and> int_range 3 \<and> next_alloc_ok heap0 \<and>
   findFImageVar ex_comment ''NAXIS'' = None \<and>
   (case setIntFITS ex_comment ''NAXIS'' 2 None heap0 of
           (f1, h1) \<Rightarrow>
             (case setIntFITS f1 ''NAXIS'' 3 None h1 of
                (f2, h2) \<Rightarrow>
                  rows f2 = (case findFImageVar ex_comment ''NAXIS'' of
                               Some rp \<Rightarrow> (rows ex_comment)[rp := fmtIntFITS ''NAXIS'' 3 None]
                             | None \<Rightarrow> rows ex_comment @ [fmtIntFITS ''NAXIS'' 3 None]) \<and>
                  nvar f2 = nvar f1 \<and>
                  length (rows f2) = length (rows f1) \<and>
                  h2 = h1 \<and>
                  getIntFITS f2 ''NAXIS'' = Some 3 \<and>
                  length (filter (bears ''NAXIS'') (rows f2))
                    = max 1 (length (filter (bears ''NAXIS'') (rows ex_comment))) \<and>
                  store_ok f2))"
proof -
  have k: "store_ok ex_comment" by code_simp
  have r2: "int_range 2" and r3: "int_range 3" by (simp_all add: int_range_def)
  have a: "next_alloc_ok heap0" by (simp add: next_alloc_ok_def heap0_def)
  have f: "findFImageVar ex_comment ''NAXIS'' = None" by code_simp
  from k r2 r3 a f C6_set_twice[OF k r2 r3 a, of "''NAXIS''" None None]
  show ?thesis by blast
qed

section \<open>Properties of the header reader\<close>

lemma fd_read_full:
  assumes "fd_read fd n = (Inr row, fd')" and "length row = n"
  shows "row = take n (pending fd)" and "pending fd' = drop n (pending fd)"
    and "n \<le> length (pending fd)"
proof -
  show "row = take n (pending fd)"
    using assms by (auto simp: fd_read_def min_def split: list.splits io_event.splits if_splits)
  show "pending fd' = drop n (pending fd)"
    using assms by (auto simp: fd_read_def min_def split: list.splits io_event.splits if_splits)
  have "row = take n (pending fd)"
    using assms by (auto simp: fd_read_def min_def split: list.splits io_event.splits if_splits)
  then have "length row = min n (length (pending fd))" by simp
  with assms(2) show "n \<le> length (pending fd)" by simp
qed

lemma rows_of_step:
  assumes "fd_read fd 80 = (Inr row, fd')" and "length row = 80"
  shows "rows_of (pending fd) = row # rows_of (pending fd')"
  using fd_read_full[OF assms] by (subst rows_of.simps) simp

lemma allocs_ok_next: "allocs_ok h \<Longrightarrow> next_alloc_ok h"
  by (auto simp: allocs_ok_def next_alloc_ok_def split: list.splits)

lemma allocs_ok_add: "allocs_ok h \<Longrightarrow> allocs_ok (snd (addFImageVar fip row h))"
  by (auto simp: allocs_ok_def addFImageVar_def malloc_def realloc_def Let_def
      split: list.splits prod.splits if_splits)

lemma strncmp_END_is: "strncmp_eq row [CHR ''E'', CHR ''N'', CHR ''D'', NUL] 3 = is_END row"
  using strncmp_END[of row] by (simp add: is_END_def)

lemma hdr_loop_step:
  assumes "fd_read fd FITS_HCOLS = (Inr row, fd1)" and "length row = FITS_HCOLS"
  shows "hdr_loop fip fd h nrows sawend =
           (let fh = (if \<not> sawend \<and> \<not> is_END row then addFImageVar fip row h else (fip, h))
            in if \<not> (sawend \<or> is_END row) \<or> cmod (nrows + 1) FITS_HROWS \<noteq> 0
               then hdr_loop (fst fh) fd1 (snd fh) (nrows + 1) (sawend \<or> is_END row)
               else (OK, fst fh, fd1, snd fh))"
  using assms
  by (subst hdr_loop.simps) (simp add: strncmp_END_is Let_def split: prod.splits)

lemma hdr_loop_rows:
  "hdr_loop fip fd h nrows sawend = (OK, fip', fd', h') \<Longrightarrow> store_ok fip \<Longrightarrow> allocs_ok h \<Longrightarrow>
     store_ok fip' \<and>
     (if sawend then rows fip' = rows fip
      else rows fip' = rows fip @ takeWhile not_END (rows_of (pending fd)) \<and>
           list_ex is_END (rows_of (pending fd)))"
proof (induction fip fd h nrows sawend rule: hdr_loop.induct)
  case (1 fip fd h nrows sawend)
  obtain r fd1 where rd: "fd_read fd FITS_HCOLS = (r, fd1)" by (cases "fd_read fd FITS_HCOLS")
  show ?case
  proof (cases r)
    case (Inl e)
    with 1(2) rd show ?thesis by (subst (asm) hdr_loop.simps) simp
  next
    case (Inr row)
    show ?thesis
    proof (cases "length row = FITS_HCOLS")
      case False
      with 1(2) rd Inr have "sawend" "fip' = fip"
        by (subst (asm) hdr_loop.simps, simp split: if_splits)+
      with 1(3) show ?thesis by simp
    next
      case True
      define fh where "fh = (if \<not> sawend \<and> \<not> is_END row then addFImageVar fip row h else (fip, h))"
      note step = hdr_loop_step[OF rd[unfolded Inr] True, of fip h nrows sawend, folded fh_def]
      have ro: "rows_of (pending fd) = row # rows_of (pending fd1)"
        using rd Inr True by (intro rows_of_step) (simp_all add: FITS_HCOLS_def)
      have l80: "length row = 80" using True by (simp add: FITS_HCOLS_def)
      have ok1: "store_ok (fst fh)" "allocs_ok (snd fh)"
        "rows (fst fh) = (if \<not> sawend \<and> \<not> is_END row then rows fip @ [row] else rows fip)"
        using 1(3,4) addFImageVar_ok[OF 1(3) allocs_ok_next[OF 1(4)] l80]
          allocs_ok_add[OF 1(4), of fip row]
        by (auto simp: fh_def split: if_splits)
      show ?thesis
      proof (cases "\<not> (sawend \<or> is_END row) \<or> cmod (nrows + 1) FITS_HROWS \<noteq> 0")
        case False
        with 1(2) step have "fip' = fst fh" by (auto simp: Let_def)
        with ok1 False ro show ?thesis
          by (auto simp: not_END_def is_END_def)
      next
        case go: True
        with 1(2) step
        have rec: "hdr_loop (fst fh) fd1 (snd fh) (nrows + 1) (sawend \<or> is_END row) = (OK, fip', fd', h')"
          by (auto simp: Let_def)
        have "store_ok fip' \<and>
              (if sawend \<or> is_END row then rows fip' = rows (fst fh)
               else rows fip' = rows (fst fh) @ takeWhile not_END (rows_of (pending fd1)) \<and>
                    list_ex is_END (rows_of (pending fd1)))"
        proof (rule 1(1)[of r fd1 row "nrows + 1" "strncmp_eq row (''END'' @ [NUL]) 3"
              "sawend \<or> strncmp_eq row (''END'' @ [NUL]) 3"
              "if \<not> sawend \<and> \<not> strncmp_eq row (''END'' @ [NUL]) 3
               then addFImageVar fip row h else (fip, h)" "fst fh" "snd fh",
              unfolded strncmp_END[of row] is_END_def[symmetric]])
          show "(r, fd1) = fd_read fd FITS_HCOLS" by (simp add: rd)
          show "r = Inr row" by (rule Inr)
          show "\<not> length row \<noteq> FITS_HCOLS" using True by simp
          show "(fst fh, snd fh) = (if \<not> sawend \<and> \<not> is_END row
                  then addFImageVar fip row h else (fip, h))"
            by (simp add: fh_def)
          show "\<not> (sawend \<or> is_END row) \<or> cmod (nrows + 1) FITS_HROWS \<noteq> 0"
            by (rule go)
          show "hdr_loop (fst fh) fd1 (snd fh) (nrows + 1) (sawend \<or> is_END row)
                = (OK, fip', fd', h')"
            by (rule rec)
          show "store_ok (fst fh)" by (rule ok1(1))
          show "allocs_ok (snd fh)" by (rule ok1(2))
        qed simp_all
        with ok1(3) ro show ?thesis
          by (auto simp: not_END_def is_END_def)
      qed
    qed
  qed
qed

lemma rows_scalar_updates [simp]:
  "rows (fip\<lparr>bitpix := a\<rparr>) = rows fip" "rows (fip\<lparr>sw := a\<rparr>) = rows fip"
  "rows (fip\<lparr>sh := a\<rparr>) = rows fip" "rows (fip\<lparr>sx := a\<rparr>) = rows fip"
  "rows (fip\<lparr>sy := a\<rparr>) = rows fip" "rows (fip\<lparr>bx := a\<rparr>) = rows fip"
  "rows (fip\<lparr>by' := a\<rparr>) = rows fip" "rows (fip\<lparr>dur := a\<rparr>) = rows fip"
  "rows (fip\<lparr>image' := b\<rparr>) = rows fip"
  by (simp_all add: rows_def)

lemma optional_keeps:
  "rows (readFITSHeader_optional ms_of f) = rows f"
  "nvar (readFITSHeader_optional ms_of f) = nvar f"
  "sw (readFITSHeader_optional ms_of f) = sw f"
  "sh (readFITSHeader_optional ms_of f) = sh f"
  "bitpix (readFITSHeader_optional ms_of f) = bitpix f"
  "image' (readFITSHeader_optional ms_of f) = image' f"
  "var (readFITSHeader_optional ms_of f) = var f"
  by (simp_all add: readFITSHeader_optional_def Let_def split: option.splits)

lemma crack_rows:
  "readFITSHeader_crack ms_of fip = Inr fip2 \<Longrightarrow> rows fip2 = rows fip"
  by (auto simp: readFITSHeader_crack_def Let_def optional_keeps
      split: option.splits if_splits sum.splits prod.splits)

lemma store_ok_init: "store_ok initFImage"
  by (simp add: store_ok_def initFImage_def rows_def)

lemma rows_init: "rows initFImage = []"
  by (simp add: initFImage_def rows_def)

lemma takeWhile_not_ex: "\<not> list_ex P (takeWhile (\<lambda>x. \<not> P x) xs)"
  by (induction xs) auto

text \<open>
  Claim C8.  The test for the terminating record in the loop of
  \<^verbatim>\<open>readFITSHeader\<close> holds of a row exactly when its first three bytes are
  \<^verbatim>\<open>END\<close>.  So when \<^verbatim>\<open>readFITSHeader\<close> returns 0 (and no row was lost to a
  failed allocation) the store holds the rows of the file before the first row
  that starts with these three bytes, whatever follows them in columns 4 to 8, and
  no row of the store starts with them.
\<close>

theorem C8_END_by_three_bytes:
  assumes "fst (readFITSHeader ms_of fd fip h) = OK" and "allocs_ok h"
  shows "strncmp_eq row (''END'' @ [NUL]) 3 = (take 3 row = ''END'') \<and>
         rows (fst (snd (readFITSHeader ms_of fd fip h)))
           = takeWhile not_END (rows_of (pending fd)) \<and>
         list_ex is_END (rows_of (pending fd)) \<and>
         \<not> list_ex is_END (rows (fst (snd (readFITSHeader ms_of fd fip h))))"
proof -
  obtain st fip1 fd1 h1 where l: "hdr_loop initFImage fd h 0 False = (st, fip1, fd1, h1)"
    by (cases "hdr_loop initFImage fd h 0 False") auto
  from assms(1) l have st: "st = OK"
    by (cases st) (auto simp: readFITSHeader_def split: prod.splits)
  from assms(1) l st obtain fip2 where c: "readFITSHeader_crack ms_of fip1 = Inr fip2"
    and e: "fst (snd (readFITSHeader ms_of fd fip h)) = fip2"
    by (cases "readFITSHeader_crack ms_of fip1")
       (auto simp: readFITSHeader_def split: prod.splits)
  from hdr_loop_rows[OF l[unfolded st] store_ok_init assms(2)]
  have r: "rows fip1 = takeWhile not_END (rows_of (pending fd))"
    and x: "list_ex is_END (rows_of (pending fd))"
    by (simp_all add: rows_init)
  have n: "not_END = (\<lambda>x. \<not> is_END x)" by (simp add: not_END_def is_END_def fun_eq_iff)
  have "\<not> list_ex is_END (rows fip1)" unfolding r n by (rule takeWhile_not_ex)
  with r x crack_rows[OF c] e strncmp_END[of row] show ?thesis by simp
qed

text \<open>
  The file whose sixth row has the keyword \<^verbatim>\<open>ENDX\<close>: the header is accepted, five
  rows are stored.
\<close>

theorem C8_END_by_three_bytes_witness:
  "fst (readFITSHeader (\<lambda>b. 0) ex_endx_file initFImage heap0) = OK \<and> allocs_ok heap0 \<and>
   strncmp_eq (rows_of (pending ex_endx_file) ! 5) (''END'' @ [NUL]) 3
     = (take 3 (rows_of (pending ex_endx_file) ! 5) = ''END'') \<and>
   rows (fst (snd (readFITSHeader (\<lambda>b. 0) ex_endx_file initFImage heap0)))
     = takeWhile not_END (rows_of (pending ex_endx_file)) \<and>
   list_ex is_END (rows_of (pending ex_endx_file)) \<and>
   \<not> list_ex is_END (rows (fst (snd (readFITSHeader (\<lambda>b. 0) ex_endx_file initFImage heap0)))) \<and>
   length (rows_of (pending ex_endx_file)) = 6 \<and>
   take 8 (rows_of (pending ex_endx_file) ! 5) = ''ENDX    '' \<and>
   length (rows (fst (snd (readFITSHeader (\<lambda>b. 0) ex_endx_file initFImage heap0)))) = 5"
proof -
  have s: "fst (readFITSHeader (\<lambda>b. 0) ex_endx_file initFImage heap0) = OK" by code_simp
  have a: "allocs_ok heap0" by (simp add: allocs_ok_def heap0_def)
  have l: "length (rows_of (pending ex_endx_file)) = 6" by code_simp
  have e: "take 8 (rows_of (pending ex_endx_file) ! 5) = ''ENDX    ''" by code_simp
  have n: "length (rows (fst (snd (readFITSHeader (\<lambda>b. 0) ex_endx_file initFImage heap0)))) = 5"
    by code_simp
  from C8_END_by_three_bytes[OF s a, of "rows_of (pending ex_endx_file) ! 5"] s a l e n
  show ?thesis by blast
qed

section \<open>Properties of the header validation\<close>

lemma findFImageVar_cong:
  "rows fip' = rows fip \<Longrightarrow> nvar fip' = nvar fip \<Longrightarrow> findFImageVar fip' name = findFImageVar fip name"
  by (simp add: findFImageVar_def)

lemma getIntFITS_cong:
  "rows fip' = rows fip \<Longrightarrow> nvar fip' = nvar fip \<Longrightarrow> getIntFITS fip' name = getIntFITS fip name"
  using findFImageVar_cong[of fip' fip name]
  by (simp add: getIntFITS_def cong: option.case_cong)

lemma getNAXIS_below_2:
  assumes "getIntFITS fip ''NAXIS'' = Some n" and "n < 2"
  shows "getNAXIS fip =
           (case getIntFITS fip ''NAXIS1'' of
              None \<Rightarrow> Inl ''No NAXIS1''
            | Some n1 \<Rightarrow>
                (case getIntFITS fip ''NAXIS2'' of
                   None \<Rightarrow> Inl ''No NAXIS2''
                 | Some n2 \<Rightarrow> Inr (n1, n2)))"
proof -
  from assms(2) have "\<not> (3::int) \<le> n" by simp
  then have "naxis_loop fip n 3 = OK" by (subst naxis_loop.simps) (simp only: if_False)
  with assms(1) show ?thesis by (simp add: getNAXIS_def)
qed

text \<open>
  Claim C2, amended.  For a header whose \<^verbatim>\<open>NAXIS\<close> row holds a number below 2,
  \<^verbatim>\<open>getNAXIS\<close> looks at no higher dimension and its result rests on
  \<^verbatim>\<open>NAXIS1\<close> and \<^verbatim>\<open>NAXIS2\<close> alone.  So when \<^verbatim>\<open>SIMPLE\<close> and \<^verbatim>\<open>BITPIX\<close>
  pass their checks, the validation of \<^verbatim>\<open>readFITSHeader\<close> rejects the header
  exactly when \<^verbatim>\<open>NAXIS1\<close> or \<^verbatim>\<open>NAXIS2\<close> is missing, with the message that
  names the missing row; with both present the header is accepted, and the width
  and the height are the numbers of these two rows.
\<close>

theorem C2_naxis_below_2_not_rejected:
  assumes "getIntFITS fip ''NAXIS'' = Some n" and "n < 2"
    and "getLogicalFITS fip ''SIMPLE'' = Some 1"
    and "getIntFITS fip ''BITPIX'' = Some b" and "b = 16 \<or> b = 32 \<or> b = - 32"
  shows "getNAXIS fip =
           (case getIntFITS fip ''NAXIS1'' of
              None \<Rightarrow> Inl ''No NAXIS1''
            | Some n1 \<Rightarrow>
                (case getIntFITS fip ''NAXIS2'' of
                   None \<Rightarrow> Inl ''No NAXIS2''
                 | Some n2 \<Rightarrow> Inr (n1, n2))) \<and>
         (case readFITSHeader_crack ms_of fip of
            Inl msg \<Rightarrow>
              (if getIntFITS fip ''NAXIS1'' = None then msg = ''No NAXIS1''
               else getIntFITS fip ''NAXIS2'' = None \<and> msg = ''No NAXIS2'')
          | Inr fip' \<Rightarrow>
              getIntFITS fip ''NAXIS1'' = Some (sw fip') \<and>
              getIntFITS fip ''NAXIS2'' = Some (sh fip') \<and> bitpix fip' = b)"
proof -
  let ?fip1 = "fip\<lparr>bitpix := b\<rparr>"
  have g: "getIntFITS ?fip1 name = getIntFITS fip name" for name
    by (rule getIntFITS_cong) simp_all
  note n0 = getNAXIS_below_2[OF assms(1,2)]
  have n1: "getNAXIS ?fip1 = getNAXIS fip"
    using getNAXIS_below_2[of ?fip1 n, unfolded g, OF assms(1,2)] n0 by simp
  from assms(5) have b: "\<not> (b \<noteq> 16 \<and> b \<noteq> 32 \<and> b \<noteq> - 32)" by simp
  have c: "readFITSHeader_crack ms_of fip =
        (case getNAXIS fip of
           Inl msg \<Rightarrow> Inl msg
         | Inr (n1, n2) \<Rightarrow> Inr (readFITSHeader_optional ms_of (?fip1\<lparr>sw := n1, sh := n2\<rparr>)))"
    using assms(3,4) b by (simp add: readFITSHeader_crack_def n1 del: de_Morgan_conj)
  show ?thesis
  proof (cases "getIntFITS fip ''NAXIS1''")
    case None
    then show ?thesis using n0 by (simp add: c)
  next
    case s1: (Some a1)
    show ?thesis
    proof (cases "getIntFITS fip ''NAXIS2''")
      case None
      with s1 n0 show ?thesis by (simp add: c)
    next
      case (Some a2)
      with s1 n0 show ?thesis by (simp add: c optional_keeps)
    qed
  qed
qed

text \<open>
  Claim C2 as stated fails: the file that declares \<^verbatim>\<open>NAXIS = 1\<close> with
  \<^verbatim>\<open>NAXIS1 = 3\<close> and \<^verbatim>\<open>NAXIS2 = 2\<close> is accepted, as an image 3 wide and 2
  high.
\<close>

theorem C2_counterexample:
  "getIntFITS ex_naxis1 ''NAXIS'' = Some 1 \<and>
   getIntFITS ex_naxis1 ''NAXIS1'' = Some 3 \<and>
   getIntFITS ex_naxis1 ''NAXIS2'' = Some 2 \<and>
   getNAXIS ex_naxis1 = Inr (3, 2) \<and>
   fst (readFITSHeader ms_zero ex_naxis1_file initFImage heap0) = OK \<and>
   sw (fst (snd (readFITSHeader ms_zero ex_naxis1_file initFImage heap0))) = 3 \<and>
   sh (fst (snd (readFITSHeader ms_zero ex_naxis1_file initFImage heap0))) = 2"
  by code_simp

text \<open>The store read from that file satisfies the hypotheses of the theorem.\<close>

theorem C2_naxis_below_2_not_rejected_witness:
  "getIntFITS ex_naxis1 ''NAXIS'' = Some 1 \<and> (1::int) < 2 \<and>
   getLogicalFITS ex_naxis1 ''SIMPLE'' = Some 1 \<and>
   getIntFITS ex_naxis1 ''BITPIX'' = Some 16 \<and>
   getNAXIS ex_naxis1 =
           (case getIntFITS ex_naxis1 ''NAXIS1'' of
              None \<Rightarrow> Inl ''No NAXIS1''
            | Some n1 \<Rightarrow>
                (case getIntFITS ex_naxis1 ''NAXIS2'' of
                   None \<Rightarrow> Inl ''No NAXIS2''
                 | Some n2 \<Rightarrow> Inr (n1, n2))) \<and>
   (case readFITSHeader_crack ms_zero ex_naxis1 of
            Inl msg \<Rightarrow>
              (if getIntFITS ex_naxis1 ''NAXIS1'' = None then msg = ''No NAXIS1''
               else getIntFITS ex_naxis1 ''NAXIS2'' = None \<and> msg = ''No NAXIS2'')
          | Inr fip' \<Rightarrow>
              getIntFITS ex_naxis1 ''NAXIS1'' = Some (sw fip') \<and>
              getIntFITS ex_naxis1 ''NAXIS2'' = Some (sh fip') \<and> bitpix fip' = 16)"
proof -
  have n: "getIntFITS ex_naxis1 ''NAXIS'' = Some 1" by code_simp
  have l: "(1::int) < 2" by simp
  have s: "getLogicalFITS ex_naxis1 ''SIMPLE'' = Some 1" by code_simp
  have b: "getIntFITS ex_naxis1 ''BITPIX'' = Some 16" by code_simp
  have d: "(16::int) = 16 \<or> (16::int) = 32 \<or> (16::int) = - 32" by simp
  from n l s b C2_naxis_below_2_not_rejected[OF n l s b d, of ms_zero]
  show ?thesis by blast
qed

section \<open>Properties of the header writer\<close>

lemma cmod_nonneg: "0 \<le> a \<Longrightarrow> 0 < b \<Longrightarrow> cmod a b = a mod b"
proof -
  assume a: "0 \<le> a" and b: "0 < b"
  have "cdiv a b = a div b"
  proof (cases "a = 0")
    case True then show ?thesis by (simp add: cdiv_def)
  next
    case False
    with a b show ?thesis by (simp add: cdiv_def sgn_if)
  qed
  then show ?thesis by (simp add: cmod_def minus_mult_div_eq_mod)
qed

lemma header_npad_eq: "0 \<le> nv \<Longrightarrow> header_npad nv = (36 - (nv + 1) mod 36) mod 36"
proof -
  assume nv: "0 \<le> nv"
  have r: "0 \<le> (nv + 1) mod 36" "(nv + 1) mod 36 < 36" by simp_all
  from nv have "cmod (nv + 1) 36 = (nv + 1) mod 36" by (simp add: cmod_nonneg)
  moreover have "cmod (36 - (nv + 1) mod 36) 36 = (36 - (nv + 1) mod 36) mod 36"
    using r by (intro cmod_nonneg) simp_all
  ultimately show ?thesis by (simp add: header_npad_def FITS_HROWS_def)
qed

lemma header_npad_props:
  assumes "0 \<le> nv"
  shows "0 \<le> header_npad nv" "header_npad nv < 36"
    "(nv + 1 + header_npad nv) mod 36 = 0"
    "\<forall>k. 0 \<le> k \<and> k < header_npad nv \<longrightarrow> (nv + 1 + k) mod 36 \<noteq> 0"
proof -
  define r where "r = (nv + 1) mod 36"
  have r: "0 \<le> r" "r < 36" by (simp_all add: r_def)
  have np: "header_npad nv = (36 - r) mod 36"
    using assms by (simp add: header_npad_eq r_def)
  show "0 \<le> header_npad nv" "header_npad nv < 36" by (simp_all add: np)
  have np': "header_npad nv = (if r = 0 then 0 else 36 - r)"
  proof (cases "r = 0")
    case True
    then show ?thesis by (simp add: np)
  next
    case False
    with r have "0 \<le> 36 - r" "36 - r < 36" by simp_all
    then have "(36 - r) mod 36 = 36 - r" by (rule mod_pos_pos_trivial)
    with False show ?thesis by (simp only: np if_False)
  qed
  have dec: "nv + 1 = 36 * ((nv + 1) div 36) + r" by (simp add: r_def)
  show "(nv + 1 + header_npad nv) mod 36 = 0"
  proof (cases "r = 0")
    case True
    then show ?thesis using np' by (simp add: r_def)
  next
    case False
    then have "nv + 1 + header_npad nv = 36 * ((nv + 1) div 36 + 1)"
      using np' dec by simp
    then have "(nv + 1 + header_npad nv) mod 36 = (36 * ((nv + 1) div 36 + 1)) mod 36"
      by (rule arg_cong)
    then show ?thesis by (simp only: mod_mult_self1_is_0)
  qed
  show "\<forall>k. 0 \<le> k \<and> k < header_npad nv \<longrightarrow> (nv + 1 + k) mod 36 \<noteq> 0"
  proof (intro allI impI)
    fix k assume k: "0 \<le> k \<and> k < header_npad nv"
    then have r0: "r \<noteq> 0" and kr: "r + k < 36" "0 < r + k"
      using np' r by (auto split: if_splits)
    have "(nv + 1 + k) mod 36 = ((nv + 1) mod 36 + k) mod 36"
      by (simp only: mod_add_left_eq)
    also have "\<dots> = (r + k) mod 36" by (simp only: r_def)
    also have "\<dots> = r + k" using kr by simp
    finally show "(nv + 1 + k) mod 36 \<noteq> 0" using kr by simp
  qed
qed

lemma length_fmtENDFITS: "length fmtENDFITS = 80"
  by (simp add: fmtENDFITS_def ljust_def)

lemma fmtENDFITS_eq: "fmtENDFITS = ''END'' @ replicate 77 SP"
  by code_simp

lemma length_concat_rows:
  "list_all (\<lambda>r. length r = n) rs \<Longrightarrow> length (concat rs) = length rs * n"
  by (induction rs) auto

lemma header_block_eq:
  assumes "store_ok fip"
  shows "header_block fip =
           concat (rows fip) @ fmtENDFITS
           @ concat (replicate (nat (header_npad (nvar fip))) (replicate 80 SP))"
    and "int (length (header_block fip)) = (nvar fip + 1 + header_npad (nvar fip)) * 80"
proof -
  from assms have nv: "nvar fip = int (length (rows fip))"
    and all: "list_all (\<lambda>r. length r = 80) (rows fip)"
    by (simp_all add: store_ok_def FITS_HCOLS_def)
  have len: "length (concat (rows fip)) = length (rows fip) * 80"
    by (rule length_concat_rows[OF all])
  have rep: "replicate (n * 80) SP = concat (replicate n (replicate 80 SP))" for n
    by (induction n) (simp_all add: replicate_add)
  show "header_block fip =
           concat (rows fip) @ fmtENDFITS
           @ concat (replicate (nat (header_npad (nvar fip))) (replicate 80 SP))"
    by (simp add: header_block_def Let_def nv len FITS_HCOLS_def rep)
  have "0 \<le> header_npad (nvar fip)" using header_npad_props(1)[of "nvar fip"] nv by simp
  then show "int (length (header_block fip)) = (nvar fip + 1 + header_npad (nvar fip)) * 80"
    by (simp add: header_block_def Let_def nv len FITS_HCOLS_def length_fmtENDFITS)
qed

lemma fd_write_complete:
  assumes "fd_write fd buf = (Inr k, fd')" and "k = length buf"
  shows "written fd' = written fd @ buf"
  using assms by (auto simp: fd_write_def split: list.splits io_event.splits)

lemma writeFITSHeader_OK:
  assumes "store_ok fip" and "fst (writeFITSHeader fip fd h) = OK"
  shows "written (fst (snd (writeFITSHeader fip fd h))) = written fd @ header_block fip"
proof -
  obtain hdr h1 where m: "malloc h = (hdr, h1)" by (cases "malloc h")
  obtain nw fd' where w: "fd_write fd (header_block fip) = (nw, fd')"
    by (cases "fd_write fd (header_block fip)")
  from assms(2) m have hdr: hdr
    by (auto simp: writeFITSHeader_def Let_def split: if_splits)
  from assms(2) m w hdr obtain k where k: "nw = Inr k"
    "int k = (nvar fip + 1 + header_npad (nvar fip)) * int FITS_HCOLS"
    by (cases nw) (auto simp: writeFITSHeader_def Let_def split: if_splits)
  from k(2) header_block_eq(2)[OF assms(1)] have "k = length (header_block fip)"
    by (simp add: FITS_HCOLS_def)
  from fd_write_complete[OF w[unfolded k(1)] this]
  have "written fd' = written fd @ header_block fip" .
  moreover from m w hdr k have "fst (snd (writeFITSHeader fip fd h)) = fd'"
    by (simp add: writeFITSHeader_def Let_def)
  ultimately show ?thesis by simp
qed

text \<open>
  Claim C5.  For a store of \<open>nvar\<close> rows, a call of \<^verbatim>\<open>writeFITSHeader\<close> that
  returns 0 has appended to the file exactly: the \<open>nvar\<close> rows in order, one
  \<^verbatim>\<open>END\<close> row (the keyword and 77 blanks), and \<open>npad\<close> rows of 80 blanks, where
  \<open>npad\<close> is the least number that makes \<open>nvar + 1 + npad\<close> a multiple of 36.  The
  number of bytes the call wrote is a multiple of 2880.
\<close>

theorem C5_header_block:
  assumes "store_ok fip" and "fst (writeFITSHeader fip fd h) = OK"
  shows "let npad = header_npad (nvar fip); fd' = fst (snd (writeFITSHeader fip fd h)) in
           written fd' = written fd @ concat (rows fip) @ (''END'' @ replicate 77 SP)
                         @ concat (replicate (nat npad) (replicate 80 SP)) \<and>
           0 \<le> npad \<and>
           (nvar fip + 1 + npad) mod 36 = 0 \<and>
           (\<forall>k. 0 \<le> k \<and> k < npad \<longrightarrow> (nvar fip + 1 + k) mod 36 \<noteq> 0) \<and>
           int (length (written fd')) = int (length (written fd)) + (nvar fip + 1 + npad) * 80 \<and>
           (length (written fd') - length (written fd)) mod 2880 = 0"
proof -
  let ?npad = "header_npad (nvar fip)"
  let ?fd' = "fst (snd (writeFITSHeader fip fd h))"
  from assms(1) have nv: "0 \<le> nvar fip" by (simp add: store_ok_def)
  note np = header_npad_props[OF nv]
  have w: "written ?fd' = written fd @ header_block fip"
    by (rule writeFITSHeader_OK[OF assms])
  have b: "header_block fip = concat (rows fip) @ (''END'' @ replicate 77 SP)
             @ concat (replicate (nat ?npad) (replicate 80 SP))"
    using header_block_eq(1)[OF assms(1)] by (simp only: fmtENDFITS_eq)
  have l: "int (length (header_block fip)) = (nvar fip + 1 + ?npad) * 80"
    by (rule header_block_eq(2)[OF assms(1)])
  from np(3) obtain q where q: "nvar fip + 1 + ?npad = 36 * q"
    by (auto simp: mod_eq_0_iff_dvd)
  with l have "int (length (header_block fip)) = 2880 * q" by simp
  then have "int (length (header_block fip)) mod 2880 = 0" by simp
  then have "int (length (header_block fip) mod 2880) = 0"
    by (simp add: zmod_int)
  then have m: "length (header_block fip) mod 2880 = 0" by simp
  have "length (written ?fd') - length (written fd) = length (header_block fip)"
    by (simp add: w)
  with m have m': "(length (written ?fd') - length (written fd)) mod 2880 = 0" by simp
  have l': "int (length (written ?fd')) = int (length (written fd)) + (nvar fip + 1 + ?npad) * 80"
    using l by (simp add: w)
  from w b np(1,3,4) l' m' show ?thesis
    unfolding Let_def by (intro conjI) (simp_all only:)
qed

text \<open>The store with one comment row: 34 rows of blanks follow \<^verbatim>\<open>END\<close>.\<close>

theorem C5_header_block_witness:
  "store_ok ex_comment \<and> fst (writeFITSHeader ex_comment out0 heap0) = OK \<and>
   (let npad = header_npad (nvar ex_comment);
        fd' = fst (snd (writeFITSHeader ex_comment out0 heap0)) in
           written fd' = written out0 @ concat (rows ex_comment) @ (''END'' @ replicate 77 SP)
                         @ concat (replicate (nat npad) (replicate 80 SP)) \<and>
           0 \<le> npad \<and>
           (nvar ex_comment + 1 + npad) mod 36 = 0 \<and>
           (\<forall>k. 0 \<le> k \<and> k < npad \<longrightarrow> (nvar ex_comment + 1 + k) mod 36 \<noteq> 0) \<and>
           int (length (written fd')) = int (length (written out0)) + (nvar ex_comment + 1 + npad) * 80 \<and>
           (length (written fd') - length (written out0)) mod 2880 = 0) \<and>
   header_npad (nvar ex_comment) = 34"
proof -
  have k: "store_ok ex_comment" by code_simp
  have w: "fst (writeFITSHeader ex_comment out0 heap0) = OK" by code_simp
  have n: "header_npad (nvar ex_comment) = 34" by code_simp
  from k w n C5_header_block[OF k w] show ?thesis by blast
qed

section \<open>Failing calls\<close>

lemma malloc_live: "malloc h = (ok, h') \<Longrightarrow> live h' = live h + (if ok then 1 else 0)"
  by (auto simp: malloc_def split: list.splits)

lemma realloc_live: "realloc h = (ok, h') \<Longrightarrow> live h' = live h"
  by (auto simp: realloc_def split: list.splits)

lemma free_live: "live (free h) = live h - 1"
  by (simp add: free_def)

lemma addFImageVar_live:
  assumes "addFImageVar fip row h = (fip', h')"
  shows "live h' - held fip' = live h - held fip" and "image' fip' = image' fip"
proof -
  obtain mem h1 where m: "(if var fip \<noteq> None then realloc h else malloc h) = (mem, h1)"
    by (cases "if var fip \<noteq> None then realloc h else malloc h")
  show "live h' - held fip' = live h - held fip"
  proof (cases "var fip")
    case None
    with m have "malloc h = (mem, h1)" by simp
    from malloc_live[OF this] assms m None show ?thesis
      by (auto simp: addFImageVar_def Let_def held_def split: if_splits)
  next
    case (Some rs)
    with m have "realloc h = (mem, h1)" by simp
    from realloc_live[OF this] assms m Some show ?thesis
      by (auto simp: addFImageVar_def Let_def held_def split: if_splits)
  qed
  show "image' fip' = image' fip"
    using assms m by (auto simp: addFImageVar_def Let_def split: if_splits)
qed

lemma hdr_loop_live:
  "hdr_loop fip fd h nrows sawend = (st, fip', fd', h') \<Longrightarrow>
     live h' - held fip' = live h - held fip \<and> image' fip' = image' fip"
proof (induction fip fd h nrows sawend rule: hdr_loop.induct)
  case (1 fip fd h nrows sawend)
  obtain r fd1 where rd: "fd_read fd FITS_HCOLS = (r, fd1)" by (cases "fd_read fd FITS_HCOLS")
  show ?case
  proof (cases r)
    case (Inl e)
    with 1(2) rd show ?thesis by (subst (asm) hdr_loop.simps) auto
  next
    case (Inr row)
    show ?thesis
    proof (cases "length row = FITS_HCOLS")
      case False
      with 1(2) rd Inr show ?thesis
        by (subst (asm) hdr_loop.simps) (auto split: if_splits)
    next
      case True
      define fh where "fh = (if \<not> sawend \<and> \<not> is_END row then addFImageVar fip row h else (fip, h))"
      note step = hdr_loop_step[OF rd[unfolded Inr] True, of fip h nrows sawend, folded fh_def]
      have ok1: "live (snd fh) - held (fst fh) = live h - held fip \<and> image' (fst fh) = image' fip"
      proof (cases "\<not> sawend \<and> \<not> is_END row")
        case True
        then have "addFImageVar fip row h = (fst fh, snd fh)" by (simp add: fh_def)
        from addFImageVar_live[OF this] show ?thesis by simp
      next
        case False
        then show ?thesis by (auto simp: fh_def)
      qed
      show ?thesis
      proof (cases "\<not> (sawend \<or> is_END row) \<or> cmod (nrows + 1) FITS_HROWS \<noteq> 0")
        case False
        with 1(2) step have "fip' = fst fh" "h' = snd fh" by (auto simp: Let_def)
        with ok1 show ?thesis by simp
      next
        case go: True
        with 1(2) step
        have rec: "hdr_loop (fst fh) fd1 (snd fh) (nrows + 1) (sawend \<or> is_END row) = (st, fip', fd', h')"
          by (auto simp: Let_def)
        have "live h' - held fip' = live (snd fh) - held (fst fh) \<and> image' fip' = image' (fst fh)"
        proof (rule 1(1)[of r fd1 row "nrows + 1" "strncmp_eq row (''END'' @ [NUL]) 3"
              "sawend \<or> strncmp_eq row (''END'' @ [NUL]) 3"
              "if \<not> sawend \<and> \<not> strncmp_eq row (''END'' @ [NUL]) 3
               then addFImageVar fip row h else (fip, h)" "fst fh" "snd fh",
              unfolded strncmp_END[of row] is_END_def[symmetric]])
          show "(r, fd1) = fd_read fd FITS_HCOLS" by (simp add: rd)
          show "r = Inr row" by (rule Inr)
          show "\<not> length row \<noteq> FITS_HCOLS" using True by simp
          show "(fst fh, snd fh) = (if \<not> sawend \<and> \<not> is_END row
                  then addFImageVar fip row h else (fip, h))"
            by (simp add: fh_def)
          show "\<not> (sawend \<or> is_END row) \<or> cmod (nrows + 1) FITS_HROWS \<noteq> 0"
            by (rule go)
          show "hdr_loop (fst fh) fd1 (snd fh) (nrows + 1) (sawend \<or> is_END row)
                = (st, fip', fd', h')"
            by (rule rec)
        qed simp_all
        with ok1 show ?thesis by simp
      qed
    qed
  qed
qed

lemma resetFImage_live:
  "resetFImage fip h = (fip', h') \<Longrightarrow> fip' = initFImage \<and> live h' = live h - held fip"
  by (auto simp: resetFImage_def Let_def free_live held_def)

lemma held_init: "held initFImage = 0"
  by (simp add: held_def initFImage_def)

lemma crack_keeps:
  "readFITSHeader_crack ms_of fip = Inr fip2 \<Longrightarrow> var fip2 = var fip \<and> image' fip2 = image' fip"
  by (auto simp: readFITSHeader_crack_def Let_def optional_keeps
      split: option.splits if_splits sum.splits prod.splits)

lemma readFITSHeader_result:
  assumes "readFITSHeader ms_of fd fip h = (st, fip', fd', h')"
  shows "st \<noteq> OK \<Longrightarrow> fip' = initFImage \<and> live h' = live h"
    and "st = OK \<Longrightarrow> live h' - held fip' = live h \<and> image' fip' = None"
proof -
  obtain st1 fip1 fd1 h1 where l: "hdr_loop initFImage fd h 0 False = (st1, fip1, fd1, h1)"
    by (cases "hdr_loop initFImage fd h 0 False") auto
  from hdr_loop_live[OF l] have a: "live h1 - held fip1 = live h" "image' fip1 = None"
    by (simp_all add: held_init) (simp add: initFImage_def)
  obtain fr hr where r: "resetFImage fip1 h1 = (fr, hr)" by (cases "resetFImage fip1 h1")
  from resetFImage_live[OF r] a have b: "fr = initFImage" "live hr = live h" by simp_all
  show "st \<noteq> OK \<Longrightarrow> fip' = initFImage \<and> live h' = live h"
    using assms l r b
    by (cases st1; cases "readFITSHeader_crack ms_of fip1")
       (auto simp: readFITSHeader_def)
  show "st = OK \<Longrightarrow> live h' - held fip' = live h \<and> image' fip' = None"
  proof -
    assume ok: "st = OK"
    with assms l r obtain fip2 where c: "readFITSHeader_crack ms_of fip1 = Inr fip2"
      and e: "fip' = fip2" "h' = h1"
      by (cases st1; cases "readFITSHeader_crack ms_of fip1")
         (auto simp: readFITSHeader_def)
    from crack_keeps[OF c] have "held fip2 = held fip1" "image' fip2 = image' fip1"
      by (simp_all add: held_def)
    with a e show ?thesis by simp
  qed
qed

lemma readFITS_failure:
  assumes "readFITS le ms_of fd fip h = Some (ERR msg, fip', fd', h')"
  shows "fip' = initFImage \<and> live h' = live h"
proof -
  obtain st fip1 fd1 h1 where hd: "readFITSHeader ms_of fd fip h = (st, fip1, fd1, h1)"
    by (cases "readFITSHeader ms_of fd fip h") auto
  show ?thesis
  proof (cases st)
    case (ERR m)
    with assms hd have "fip' = fip1" "h' = h1" by (simp_all add: readFITS_def)
    with readFITSHeader_result(1)[OF hd] ERR show ?thesis by simp
  next
    case OK
    from readFITSHeader_result(2)[OF hd OK]
    have a: "live h1 - held fip1 = live h" "image' fip1 = None" by simp_all
    obtain image_ok h2 where m1: "malloc h1 = (image_ok, h2)" by (cases "malloc h1")
    note l2 = malloc_live[OF m1]
    show ?thesis
    proof (cases image_ok)
      case False
      obtain fr hr where r: "resetFImage fip1 h2 = (fr, hr)" by (cases "resetFImage fip1 h2")
      from assms hd OK m1 False r have "fip' = fr" "h' = hr"
        by (simp_all add: readFITS_def Let_def)
      with resetFImage_live[OF r] l2 False a show ?thesis by simp
    next
      case True
      define fresh where "fresh = replicate (nat (sw fip1 * sh fip1 * 2)) NUL"
      define fip2 where "fip2 = fip1\<lparr>image' := Some fresh\<rparr>"
      obtain imdata_ok h3 where m2: "malloc h2 = (imdata_ok, h3)" by (cases "malloc h2")
      note l3 = malloc_live[OF m2]
      obtain rl fd2 where rd:
        "read_loop imdata_ok (nat (cdiv (sw fip1 * sh fip1 * \<bar>bitpix fip1\<bar>) 8)) [] fd1 = (rl, fd2)"
        by (cases "read_loop imdata_ok (nat (cdiv (sw fip1 * sh fip1 * \<bar>bitpix fip1\<bar>) 8)) [] fd1")
      obtain fr hr where r: "resetFImage fip2 h3 = (fr, hr)" by (cases "resetFImage fip2 h3")
      have h2: "held fip2 = held fip1 + 1" using a(2) by (simp add: held_def fip2_def)
      from assms hd OK m1 True m2 rd r obtain m where "rl = Inl m"
        and e: "fip' = fr" "h' = (if imdata_ok then free hr else hr)"
        by (cases rl)
           (auto simp: readFITS_def Let_def fresh_def[symmetric] fip2_def[symmetric]
                 split: option.splits)
      from resetFImage_live[OF r] have "fr = initFImage" "live hr = live h3 - held fip2"
        by simp_all
      with e l2 l3 True h2 a show ?thesis by (simp add: free_live)
    qed
  qed
qed

lemma writeFITSHeader_live:
  "writeFITSHeader fip fd h = (st, fd', h') \<Longrightarrow> live h' = live h"
proof -
  assume a: "writeFITSHeader fip fd h = (st, fd', h')"
  obtain hdr h1 where m: "malloc h = (hdr, h1)" by (cases "malloc h")
  obtain nw fd1 where w: "fd_write fd (header_block fip) = (nw, fd1)"
    by (cases "fd_write fd (header_block fip)")
  from a m w malloc_live[OF m] show ?thesis
    by (cases hdr; cases nw)
       (auto simp: writeFITSHeader_def Let_def free_live split: if_splits)
qed

lemma writeFITS_keeps:
  assumes "writeFITS le fd fip restore h = (st, fip', fd', h')"
  shows "fip'\<lparr>image' := image' fip\<rparr> = fip \<and> (image' fip' = None) = (image' fip = None)
         \<and> live h' = live h"
proof (cases "image' fip")
  case None
  with assms show ?thesis by (simp add: writeFITS_def)
next
  case (Some img)
  obtain s1 fd1 h1 where wh: "writeFITSHeader fip fd h = (s1, fd1, h1)"
    by (cases "writeFITSHeader fip fd h") auto
  note lv = writeFITSHeader_live[OF wh]
  show ?thesis
  proof (cases s1)
    case (ERR m)
    with assms Some wh lv show ?thesis by (simp add: writeFITS_def)
  next
    case OK
    define img1 where "img1 = enFITSPixels le img (sw fip * sh fip)"
    obtain wl fd2 where w: "write_loop (take (nat (sw fip * sh fip * 2)) img1) 0 fd1 = (wl, fd2)"
      by (cases "write_loop (take (nat (sw fip * sh fip * 2)) img1) 0 fd1")
    obtain s3 fd3 where p: "pad_2880 fd2 (sw fip * sh fip * 2) = (s3, fd3)"
      by (cases "pad_2880 fd2 (sw fip * sh fip * 2)")
    from assms Some wh OK w p lv show ?thesis
      by (cases wl; cases s3)
         (auto simp: writeFITS_def Let_def img1_def[symmetric] Some)
  qed
qed

lemma retcode_ERR: "(retcode st = - 1) = (\<exists>msg. st = ERR msg)"
  by (cases st) (simp_all add: retcode_def)

text \<open>
  Claim C3, amended.  A failing call of \<^verbatim>\<open>readFITSHeader\<close> or of \<^verbatim>\<open>readFITS\<close>
  returns \<open>-1\<close> with a message, leaves the descriptor in its initialized state,
  and has released every buffer it allocated (as many blocks are live after the
  call as before).  A failing call of \<^verbatim>\<open>writeFITS\<close> returns \<open>-1\<close> with a message
  and does not reset the descriptor: the header store and the scalar fields are
  as they were, the pixel buffer is still held when there was one, and nothing is
  released.
\<close>

theorem C3_failures_reset_on_read_only:
  "(retcode (fst (readFITSHeader ms_of fd fip h)) = - 1 \<longrightarrow>
      fst (snd (readFITSHeader ms_of fd fip h)) = initFImage \<and>
      live (snd (snd (snd (readFITSHeader ms_of fd fip h)))) = live h) \<and>
   (\<forall>r. readFITS le ms_of' fd' fip' h' = Some r \<longrightarrow> retcode (fst r) = - 1 \<longrightarrow>
      fst (snd r) = initFImage \<and> live (snd (snd (snd r))) = live h') \<and>
   (retcode (fst (writeFITS le' wfd wfip restore wh)) = - 1 \<longrightarrow>
      (fst (snd (writeFITS le' wfd wfip restore wh)))\<lparr>image' := image' wfip\<rparr> = wfip \<and>
      (image' (fst (snd (writeFITS le' wfd wfip restore wh))) = None) = (image' wfip = None) \<and>
      live (snd (snd (snd (writeFITS le' wfd wfip restore wh)))) = live wh)"
proof (intro conjI impI allI)
  obtain st fip1 fd1 h1 where r: "readFITSHeader ms_of fd fip h = (st, fip1, fd1, h1)"
    by (cases "readFITSHeader ms_of fd fip h") auto
  assume "retcode (fst (readFITSHeader ms_of fd fip h)) = - 1"
  then have "st \<noteq> OK" by (auto simp: r retcode_def)
  from readFITSHeader_result(1)[OF r this]
  show "fst (snd (readFITSHeader ms_of fd fip h)) = initFImage"
    and "live (snd (snd (snd (readFITSHeader ms_of fd fip h)))) = live h"
    by (simp_all add: r)
next
  fix r assume a: "readFITS le ms_of' fd' fip' h' = Some r" and b: "retcode (fst r) = - 1"
  obtain st fip1 fd1 h1 where r: "r = (st, fip1, fd1, h1)" by (cases r) auto
  from b r obtain msg where "st = ERR msg" by (auto simp: retcode_ERR)
  with a r have "readFITS le ms_of' fd' fip' h' = Some (ERR msg, fip1, fd1, h1)" by simp
  from readFITS_failure[OF this]
  show "fst (snd r) = initFImage" and "live (snd (snd (snd r))) = live h'"
    by (simp_all add: r)
next
  obtain st fip1 fd1 h1 where w: "writeFITS le' wfd wfip restore wh = (st, fip1, fd1, h1)"
    by (cases "writeFITS le' wfd wfip restore wh") auto
  from writeFITS_keeps[OF w]
  show "(fst (snd (writeFITS le' wfd wfip restore wh)))\<lparr>image' := image' wfip\<rparr> = wfip"
    and "(image' (fst (snd (writeFITS le' wfd wfip restore wh))) = None) = (image' wfip = None)"
    and "live (snd (snd (snd (writeFITS le' wfd wfip restore wh)))) = live wh"
    by (simp_all add: w)
qed

text \<open>
  Claim C3 as stated fails for \<^verbatim>\<open>writeFITS\<close>: without pixels it returns \<open>-1\<close>
  and the descriptor still has its header row; after a short write of the pixels
  the descriptor still has its row and its pixel buffer.
\<close>

theorem C3_counterexample:
  "fst (writeFITS True out0 ex_comment 0 heap0) = ERR ''No pixels :-('' \<and>
   retcode (fst (writeFITS True out0 ex_comment 0 heap0)) = - 1 \<and>
   fst (snd (writeFITS True out0 ex_comment 0 heap0)) = ex_comment \<and>
   nvar ex_comment = 1 \<and> nvar initFImage = 0 \<and>
   fst (writeFITS True out_short ex_pix 1 heap0) = ERR ''Short write of FITS pixels'' \<and>
   fst (snd (writeFITS True out_short ex_pix 1 heap0)) = ex_pix \<and>
   image' ex_pix = Some [CHR 0x34, CHR 0x12, CHR 0xFF, CHR 0x80] \<and> image' initFImage = None"
  by code_simp

text \<open>
  An empty file for \<^verbatim>\<open>readFITSHeader\<close>, a header without pixel data for
  \<^verbatim>\<open>readFITS\<close>, and a descriptor without pixels for \<^verbatim>\<open>writeFITS\<close>.
\<close>

theorem C3_failures_reset_on_read_only_witness:
  "retcode (fst (readFITSHeader ms_zero ex_empty_file ex_comment heap0)) = - 1 \<and>
   fst (snd (readFITSHeader ms_zero ex_empty_file ex_comment heap0)) = initFImage \<and>
   live (snd (snd (snd (readFITSHeader ms_zero ex_empty_file ex_comment heap0)))) = live heap0 \<and>
   readFITS True ms_zero ex_naxis1_file ex_comment heap0
     = Some (ERR ''data is short'', initFImage, ex_empty_file, heap0) \<and>
   retcode (fst (ERR ''data is short'', initFImage, ex_empty_file, heap0)) = - 1 \<and>
   fst (snd (ERR ''data is short'', initFImage, ex_empty_file, heap0)) = initFImage \<and>
   live (snd (snd (snd (ERR ''data is short'', initFImage, ex_empty_file, heap0)))) = live heap0 \<and>
   retcode (fst (writeFITS True out0 ex_comment 0 heap0)) = - 1 \<and>
   (fst (snd (writeFITS True out0 ex_comment 0 heap0)))\<lparr>image' := image' ex_comment\<rparr>
     = ex_comment \<and>
   (image' (fst (snd (writeFITS True out0 ex_comment 0 heap0))) = None)
     = (image' ex_comment = None) \<and>
   live (snd (snd (snd (writeFITS True out0 ex_comment 0 heap0)))) = live heap0"
proof -
  have a: "retcode (fst (readFITSHeader ms_zero ex_empty_file ex_comment heap0)) = - 1"
    by code_simp
  have b: "readFITS True ms_zero ex_naxis1_file ex_comment heap0
     = Some (ERR ''data is short'', initFImage, ex_empty_file, heap0)"
    by code_simp
  have b': "retcode (fst (ERR ''data is short'', initFImage, ex_empty_file, heap0)) = - 1"
    by (simp add: retcode_def)
  have c: "retcode (fst (writeFITS True out0 ex_comment 0 heap0)) = - 1"
    by code_simp
  from a b b' c
    C3_failures_reset_on_read_only[of ms_zero ex_empty_file ex_comment heap0 True
      ms_zero ex_naxis1_file ex_comment heap0 True out0 ex_comment 0 heap0]
  show ?thesis by blast
qed

section \<open>Properties of the float samples\<close>



























text \<open>
  The whole image of the six-sample file on a little-endian host: 1, 0 for the
  NaN, 65535, 0, 1000 and 0.
\<close>

lemma ex_floats_image:
  "readFITS_convert True (- 32) ex_floats 6 [] =
     [CHR 0x01, CHR 0x00, CHR 0x00, CHR 0x00, CHR 0xFF, CHR 0xFF,
      CHR 0x00, CHR 0x00, CHR 0xE8, CHR 0x03, CHR 0x00, CHR 0x00]"
  by code_simp



end
